theory Spec2Isabelle
  imports Main "HOL-Library.Word"
begin

section \<open>Errors\<close>

text \<open>
  A Go \<open>error\<close> is an interface value. The controller distinguishes one dynamic type,
  \<open>*kubeapi.RequestError\<close>, of which it reads the field \<open>StatusCode\<close>; every other
  dynamic type is \<open>OtherError\<close>. \<open>Errorf\<close> is \<open>fmt.Errorf("<prefix>: %w", err)\<close>.
  A nil error is \<open>None\<close> of \<open>error option\<close>.
\<close>

datatype error =
    RequestError (StatusCode: int)
  | OtherError string
  | Errorf string error

section \<open>API objects\<close>

text \<open>
  Go selects a field by the static type of the receiver; here a field that occurs in
  several structs is written with the struct's name in front
  (\<open>OwnerReference.Name\<close>, \<open>FooSpec.Replicas\<close>, \<open>Deployment.Spec\<close>).
  The unqualified \<open>Name\<close>, \<open>Namespace\<close>, \<open>UID\<close>, ... are the fields of
  \<open>ObjectMeta\<close>, which \<open>Foo\<close> and \<open>Deployment\<close> embed. A pointer field is an
  \<open>option\<close>, a Go map used as a small label table is an association list, and
  \<open>int32\<close> is \<open>32 word\<close>.
\<close>

record OwnerReference =
  APIVersion :: string
  Kind :: string
  Name :: string
  UID :: string
  Controller :: "bool option"
  BlockOwnerDeletion :: "bool option"

record Container =
  Name :: string
  Image :: string

record PodSpec =
  Containers :: "Container list"

record LabelSelector =
  MatchLabels :: "(string \<times> string) list"

record ObjectMeta =
  Name :: string
  Namespace :: string
  UID :: string
  ResourceVersion :: string
  Labels :: "(string \<times> string) list"
  OwnerReferences :: "OwnerReference list"

record PodTemplateSpec = ObjectMeta +
  Spec :: PodSpec

record DeploymentSpec =
  Replicas :: "32 word option"
  Selector :: "LabelSelector option"
  Template :: PodTemplateSpec

record Deployment = ObjectMeta +
  Spec :: DeploymentSpec

record FooSpec =
  DeploymentName :: string
  Replicas :: "32 word"

record Foo = ObjectMeta +
  Spec :: FooSpec

text \<open>The part of \<open>apiextensionsv1\<close> that \<open>addFooCRD\<close> fills in and \<open>addCRD\<close> reads.\<close>

datatype JSONSchemaProps =
  JSONSchemaProps (Type: string) (Properties: "(string \<times> JSONSchemaProps) list")

record CustomResourceValidation =
  OpenAPIV3Schema :: "JSONSchemaProps option"

record CustomResourceDefinitionNames =
  Kind :: string
  Plural :: string

record CustomResourceDefinitionVersion =
  Name :: string
  Schema :: "CustomResourceValidation option"
  Served :: bool
  Storage :: bool

record CustomResourceDefinitionSpec =
  Group :: string
  Names :: CustomResourceDefinitionNames
  Scope :: string
  Versions :: "CustomResourceDefinitionVersion list"

record CustomResourceDefinitionCondition =
  Type :: string
  Status :: string

record CustomResourceDefinitionStatus =
  Conditions :: "CustomResourceDefinitionCondition list"

record CustomResourceDefinition = ObjectMeta +
  Spec :: CustomResourceDefinitionSpec
  Status :: CustomResourceDefinitionStatus

text \<open>
  \<open>kubeapi.WatchEvent\<close>. \<open>Item\<close> is an \<open>interface{}\<close> that the controller
  converts with a type assertion: \<open>Some x\<close> is a value of the asserted type, \<open>None\<close>
  is nil or a value of another type, on which the assertion panics.
\<close>

record 'a WatchEvent =
  Item :: "'a option"
  IsDelete :: bool
  Err :: "error option"

definition Version :: string where
  "Version = ''v1alpha1''"

definition Group :: string where
  "Group = ''samplecontroller.example.com''"

definition Kind :: string where
  "Kind = ''Foo''"

definition ConditionTrue :: string where
  "ConditionTrue = ''True''"

subsection \<open>Helpers of \<open>k8s.io/apimachinery/pkg/apis/meta/v1\<close>\<close>

text \<open>
  \<open>metav1.NewControllerRef\<close>: an owner reference to \<open>owner\<close> with both flags set.
  The API version is \<open>GroupVersion().String()\<close> of the given group, version and kind.
\<close>

definition NewControllerRef :: "'a ObjectMeta_scheme \<Rightarrow> string \<Rightarrow> string \<Rightarrow> string \<Rightarrow> OwnerReference" where
  "NewControllerRef owner g v k =
     \<lparr>APIVersion = (if g = [] then v else g @ ''/'' @ v),
      OwnerReference.Kind = k,
      OwnerReference.Name = ObjectMeta.Name owner,
      OwnerReference.UID = ObjectMeta.UID owner,
      Controller = Some True,
      BlockOwnerDeletion = Some True\<rparr>"

text \<open>
  \<open>metav1.GetControllerOfNoCopy\<close> returns the first owner reference whose
  \<open>Controller\<close> pointer is set and true; \<open>metav1.IsControlledBy\<close> compares the UID of
  that reference with the owner's UID.
\<close>

definition GetControllerOfNoCopy :: "'a ObjectMeta_scheme \<Rightarrow> OwnerReference option" where
  "GetControllerOfNoCopy controllee =
     find (\<lambda>r. Controller r = Some True) (OwnerReferences controllee)"

definition IsControlledBy :: "'a ObjectMeta_scheme \<Rightarrow> 'b ObjectMeta_scheme \<Rightarrow> bool" where
  "IsControlledBy obj owner =
     (case GetControllerOfNoCopy obj of
        None \<Rightarrow> False
      | Some ref \<Rightarrow> OwnerReference.UID ref = ObjectMeta.UID owner)"

section \<open>The Deployment a Foo asks for\<close>

definition newDeployment :: "Foo \<Rightarrow> Deployment" where
  "newDeployment foo =
     (let ref = NewControllerRef foo Group Version Kind;
          labels = [(''controller'', ObjectMeta.Name foo)];
          container = \<lparr>Container.Name = ''nginx'', Image = ''nginx:latest''\<rparr>;
          template =
            \<lparr>ObjectMeta.Name = [], Namespace = [], ObjectMeta.UID = [], ResourceVersion = [],
             Labels = labels, OwnerReferences = [],
             PodTemplateSpec.Spec = \<lparr>Containers = [container]\<rparr>\<rparr>;
          spec =
            \<lparr>DeploymentSpec.Replicas = Some (FooSpec.Replicas (Foo.Spec foo)),
             Selector = Some \<lparr>MatchLabels = labels\<rparr>,
             Template = template\<rparr>
      in \<lparr>ObjectMeta.Name = DeploymentName (Foo.Spec foo),
          Namespace = Namespace foo,
          ObjectMeta.UID = [],
          ResourceVersion = [],
          Labels = [],
          OwnerReferences = [ref],
          Deployment.Spec = spec\<rparr>)"

section \<open>The controller's view of the cluster\<close>

record controllerStatus =
  foos :: "string \<rightharpoonup> Foo"
  deployments :: "string \<rightharpoonup> Deployment"
  todo :: "string set"

section \<open>The world outside: client, log, rate limiter\<close>

text \<open>
  The two calls \<open>synchronize\<close> makes on the client. What the API server answers is
  not the controller's to decide: a client is any function from the calls made so far
  (each with its answer) and the present call to an answer, \<open>None\<close> for a nil error.
\<close>

datatype api_call =
    AddDeployment Deployment
  | UpdateDeployment Deployment

type_synonym KubeClient = "(api_call \<times> error option) list \<Rightarrow> api_call \<Rightarrow> error option"

text \<open>
  The two lines the package writes with \<open>log.Printf\<close>:
  \<open>"Deployment %s:%s is not owned by us."\<close> and \<open>"Synchronize failed, will retry: %s"\<close>.
\<close>

datatype log_line =
    NotOwnedByUs string string
  | SynchronizeFailed error

text \<open>
  Everything the controller does to the outside: the client calls with their answers, the
  log, and the number of \<open>AskTick\<close> calls on the rate limiter.
\<close>

record world =
  calls :: "(api_call \<times> error option) list"
  logs :: "log_line list"
  ticks :: nat

section \<open>synchronize\<close>

text \<open>
  How one iteration of the \<open>for item := range status.todo\<close> loop ends: with
  \<open>continue\<close> or at the end of the body (\<open>Next\<close>), with \<open>return err\<close>, or in the
  nil-pointer panic of \<open>*dep.Spec.Replicas\<close>.
\<close>

datatype flow = Next | Return error | Panic

text \<open>
  The tail of the loop body, lines 187 to 198: build the Deployment, send it with
  \<open>UpdateDeployment\<close> (carrying the resource version of the existing one) or with
  \<open>AddDeployment\<close>, return on an error, else delete the item from \<open>todo\<close>.
\<close>

definition apply_newDeployment ::
    "KubeClient \<Rightarrow> string \<Rightarrow> Foo \<Rightarrow> Deployment option \<Rightarrow> controllerStatus \<Rightarrow> world
       \<Rightarrow> flow \<times> controllerStatus \<times> world" where
  "apply_newDeployment client item foo has_dep status w =
     (let newDep = newDeployment foo;
          call = (case has_dep of
                    Some dep \<Rightarrow> UpdateDeployment (newDep\<lparr>ResourceVersion := ResourceVersion dep\<rparr>)
                  | None \<Rightarrow> AddDeployment newDep);
          err = client (calls w) call;
          w' = w\<lparr>calls := calls w @ [(call, err)]\<rparr>
      in case err of
           Some e \<Rightarrow> (Return e, status, w')
         | None \<Rightarrow> (Next, status\<lparr>todo := todo status - {item}\<rparr>, w'))"

text \<open>The body of the loop for one \<open>item\<close>.\<close>

definition synchronize_item ::
    "KubeClient \<Rightarrow> string \<Rightarrow> controllerStatus \<Rightarrow> world \<Rightarrow> flow \<times> controllerStatus \<times> world" where
  "synchronize_item client item status w =
     (case foos status item of
        None \<Rightarrow> (Next, status\<lparr>todo := todo status - {item}\<rparr>, w)
      | Some foo \<Rightarrow>
          (case deployments status (DeploymentName (Foo.Spec foo)) of
             Some dep \<Rightarrow>
               if \<not> IsControlledBy dep foo then
                 (Next, status, w\<lparr>logs := logs w @ [NotOwnedByUs (Namespace dep) (ObjectMeta.Name dep)]\<rparr>)
               else
                 (case DeploymentSpec.Replicas (Deployment.Spec dep) of
                    None \<Rightarrow> (Panic, status, w)
                  | Some r \<Rightarrow>
                      if FooSpec.Replicas (Foo.Spec foo) = r then
                        (Next, status\<lparr>todo := todo status - {item}\<rparr>, w)
                      else apply_newDeployment client item foo (Some dep) status w)
           | None \<Rightarrow> apply_newDeployment client item foo None status w))"

text \<open>
  The loop. Go visits the keys of a map in an order of its own choosing, and an entry
  deleted here is always the one being visited, so one pass visits every key that
  \<open>todo\<close> holds at the start once: \<open>order\<close> is that sequence of keys
  (\<open>range_order\<close> below). The result \<open>Next\<close> is the \<open>return nil\<close> after the loop.
\<close>

fun synchronize ::
    "KubeClient \<Rightarrow> string list \<Rightarrow> controllerStatus \<Rightarrow> world \<Rightarrow> flow \<times> controllerStatus \<times> world" where
  "synchronize client [] status w = (Next, status, w)"
| "synchronize client (item # rest) status w =
     (case synchronize_item client item status w of
        (Next, status', w') \<Rightarrow> synchronize client rest status' w'
      | (Return e, status', w') \<Rightarrow> (Return e, status', w')
      | (Panic, status', w') \<Rightarrow> (Panic, status', w'))"

definition range_order :: "string list \<Rightarrow> controllerStatus \<Rightarrow> bool" where
  "range_order order status \<longleftrightarrow> distinct order \<and> set order = todo status"

section \<open>processResources\<close>

text \<open>
  What is put on the channel \<open>c.Errors\<close>, in order. The channel is unbuffered; a
  send is recorded when it is made, which takes the reader of the channel to be there.
\<close>

datatype chan_event = Send error | Close

text \<open>
  Where the function stands: in its loop, returned after both channels were closed,
  returned after a delivery error, or unwinding from a panic.
\<close>

datatype phase = Running | Done | Failed | Panicked

text \<open>
  The local variables of \<open>processResources\<close>. \<open>deploymentsCh\<close> and \<open>foosCh\<close> say
  whether the channel variable still holds its channel (\<open>False\<close> once it is set to nil).
\<close>

record loop_state =
  status :: controllerStatus
  deploymentsCh :: bool
  foosCh :: bool
  outside :: world
  Errors :: "chan_event list"
  phase :: phase

text \<open>
  One outcome of the \<open>select\<close>: a receive on one of the two watch channels, \<open>None\<close>
  when the channel is closed (\<open>ok\<close> false and the zero event), or a receive on the
  rate limiter's channel, together with the order in which the \<open>range\<close> of this pass
  of \<open>synchronize\<close> visits \<open>todo\<close>.
\<close>

datatype select_case =
    FromDeployments "Deployment WatchEvent option"
  | FromFoos "Foo WatchEvent option"
  | FromRateLimiter "string list"

text \<open>The test at the end of the loop body; the deferred \<open>close(c.Errors)\<close> runs on return.\<close>

definition end_of_iteration :: "loop_state \<Rightarrow> loop_state" where
  "end_of_iteration s =
     (if \<not> deploymentsCh s \<and> \<not> foosCh s
      then s\<lparr>Errors := Errors s @ [Close], phase := Done\<rparr>
      else s)"

definition fail_with :: "string \<Rightarrow> error \<Rightarrow> loop_state \<Rightarrow> loop_state" where
  "fail_with prefix e s = s\<lparr>Errors := Errors s @ [Send (Errorf prefix e), Close], phase := Failed\<rparr>"

definition panic :: "loop_state \<Rightarrow> loop_state" where
  "panic s = s\<lparr>Errors := Errors s @ [Close], phase := Panicked\<rparr>"

text \<open>Lines 241 to 249: the first owner reference of kind \<open>Foo\<close> marks its name.\<close>

definition mark_owner :: "Deployment \<Rightarrow> loop_state \<Rightarrow> loop_state" where
  "mark_owner item s =
     (case find (\<lambda>ref. OwnerReference.Kind ref = Kind) (OwnerReferences item) of
        None \<Rightarrow> s
      | Some ref \<Rightarrow>
          s\<lparr>outside := (outside s)\<lparr>ticks := Suc (ticks (outside s))\<rparr>,
            status := (status s)\<lparr>todo := insert (OwnerReference.Name ref) (todo (status s))\<rparr>\<rparr>)"

definition case_deployments :: "Deployment WatchEvent option \<Rightarrow> loop_state \<Rightarrow> loop_state" where
  "case_deployments d s =
     (case d of
        None \<Rightarrow> end_of_iteration (s\<lparr>deploymentsCh := False\<rparr>)
      | Some ev \<Rightarrow>
          (case Err ev of
             Some e \<Rightarrow> fail_with ''Reading deployments'' e s
           | None \<Rightarrow>
               (case Item ev of
                  None \<Rightarrow> panic s
                | Some item \<Rightarrow>
                    end_of_iteration (mark_owner item
                      (s\<lparr>status := (status s)\<lparr>deployments :=
                           (if IsDelete ev
                            then (deployments (status s))(ObjectMeta.Name item := None)
                            else (deployments (status s))(ObjectMeta.Name item \<mapsto> item))\<rparr>\<rparr>)))))"

definition case_foos :: "Foo WatchEvent option \<Rightarrow> loop_state \<Rightarrow> loop_state" where
  "case_foos f s =
     (case f of
        None \<Rightarrow> end_of_iteration (s\<lparr>foosCh := False\<rparr>)
      | Some ev \<Rightarrow>
          (case Err ev of
             Some e \<Rightarrow> fail_with ''Reading Foos'' e s
           | None \<Rightarrow>
               (case Item ev of
                  None \<Rightarrow> panic s
                | Some item \<Rightarrow>
                    end_of_iteration
                      (s\<lparr>outside := (outside s)\<lparr>ticks := Suc (ticks (outside s))\<rparr>,
                         status := (status s)\<lparr>
                           foos := (if IsDelete ev
                                    then (foos (status s))(ObjectMeta.Name item := None)
                                    else (foos (status s))(ObjectMeta.Name item \<mapsto> item)),
                           todo := insert (ObjectMeta.Name item) (todo (status s))\<rparr>\<rparr>))))"

definition case_ratelimiter :: "KubeClient \<Rightarrow> string list \<Rightarrow> loop_state \<Rightarrow> loop_state" where
  "case_ratelimiter client order s =
     (case synchronize client order (status s) (outside s) of
        (Next, status', w') \<Rightarrow> end_of_iteration (s\<lparr>status := status', outside := w'\<rparr>)
      | (Return err, status', w') \<Rightarrow>
          end_of_iteration
            (s\<lparr>status := status',
               outside := w'\<lparr>logs := logs w' @ [SynchronizeFailed err], ticks := Suc (ticks w')\<rparr>\<rparr>)
      | (Panic, status', w') \<Rightarrow> panic (s\<lparr>status := status', outside := w'\<rparr>))"

text \<open>
  One iteration of the \<open>for { select { ... } }\<close> loop. A \<open>select\<close> never takes the
  case of a nil channel, the \<open>range\<close> visits exactly the keys of \<open>todo\<close>, and after
  its return the function does nothing: an outcome that cannot happen in the state leaves
  the state as it is.
\<close>

definition processResources_step :: "KubeClient \<Rightarrow> loop_state \<Rightarrow> select_case \<Rightarrow> loop_state" where
  "processResources_step client s sel =
     (if phase s \<noteq> Running then s
      else case sel of
             FromDeployments d \<Rightarrow> if deploymentsCh s then case_deployments d s else s
           | FromFoos f \<Rightarrow> if foosCh s then case_foos f s else s
           | FromRateLimiter order \<Rightarrow>
               if range_order order (status s) then case_ratelimiter client order s else s)"

text \<open>The state with which the loop is entered: three empty maps, both channels held.\<close>

definition processResources_init :: "world \<Rightarrow> loop_state" where
  "processResources_init w =
     \<lparr>status = \<lparr>foos = Map.empty, deployments = Map.empty, todo = {}\<rparr>,
      deploymentsCh = True, foosCh = True, outside = w, Errors = [], phase = Running\<rparr>"

text \<open>The run of \<open>processResources\<close> over a sequence of \<open>select\<close> outcomes.\<close>

definition processResources :: "KubeClient \<Rightarrow> world \<Rightarrow> select_case list \<Rightarrow> loop_state" where
  "processResources client w sels = foldl (processResources_step client) (processResources_init w) sels"

section \<open>Installing the resource definition\<close>

text \<open>
  What \<open>addCRD\<close> and \<open>startAux\<close> ask of the client, in order. \<open>Stop\<close> is the
  deferred \<open>close(stop)\<close> of the watch on the definition.
\<close>

datatype request =
    AddCustomResourceDefinition CustomResourceDefinition
  | GetCustomResourceDefinitions string
  | Stop
  | GetResources string string string string
  | GetDeployments string

text \<open>
  The answers of the API server to \<open>addCRD\<close>: the error of the create call, and the
  events the watch delivers, with whether the channel is closed after them.
\<close>

record crd_server =
  create_answer :: "CustomResourceDefinition \<Rightarrow> error option"
  watch_answer :: "string \<Rightarrow> CustomResourceDefinition WatchEvent list \<times> bool"

text \<open>
  A call returns, waits for ever on a channel that neither delivers nor closes, or panics.
\<close>

datatype 'a outcome = Returns 'a | Blocks | Panics

text \<open>The loop labelled \<open>Outer\<close>.\<close>

fun await_established :: "CustomResourceDefinition WatchEvent list \<Rightarrow> bool \<Rightarrow> error option outcome" where
  "await_established [] closed = (if closed then Returns None else Blocks)"
| "await_established (res # resources) closed =
     (case Err res of
        Some e \<Rightarrow> Returns (Some e)
      | None \<Rightarrow>
          if IsDelete res then await_established resources closed
          else (case Item res of
                  None \<Rightarrow> Panics
                | Some item \<Rightarrow>
                    if list_ex (\<lambda>cond. CustomResourceDefinitionCondition.Type cond = ''Established''
                                  \<and> CustomResourceDefinitionCondition.Status cond = ConditionTrue)
                         (Conditions (CustomResourceDefinition.Status item))
                    then Returns None
                    else await_established resources closed))"

definition addCRD :: "crd_server \<Rightarrow> CustomResourceDefinitionSpec \<Rightarrow> error option outcome \<times> request list" where
  "addCRD client spec =
     (let name = Plural (Names spec) @ ''.'' @ CustomResourceDefinitionSpec.Group spec;
          crd = \<lparr>ObjectMeta.Name = name, Namespace = [], ObjectMeta.UID = [], ResourceVersion = [],
                 Labels = [], OwnerReferences = [],
                 CustomResourceDefinition.Spec = spec,
                 CustomResourceDefinition.Status = \<lparr>Conditions = []\<rparr>\<rparr>;
          err = create_answer client crd;
          wait = (let (resources, closed) = watch_answer client name;
                      r = await_established resources closed
                  in (r, [AddCustomResourceDefinition crd, GetCustomResourceDefinitions name]
                         @ (if r = Blocks then [] else [Stop])))
      in case err of
           Some (RequestError code) \<Rightarrow>
             if code \<noteq> 409 then (Returns (Some (RequestError code)), [AddCustomResourceDefinition crd])
             else wait
         | _ \<Rightarrow> wait)"

definition addFooCRD :: "crd_server \<Rightarrow> error option outcome \<times> request list" where
  "addFooCRD client =
     (let crdNames = \<lparr>CustomResourceDefinitionNames.Kind = Kind, Plural = ''foos''\<rparr>;
          crdSchemaSpec = JSONSchemaProps ''object''
            [(''deploymentName'', JSONSchemaProps ''string'' []),
             (''replicas'', JSONSchemaProps ''integer'' [])];
          crdSchema = JSONSchemaProps ''object'' [(''spec'', crdSchemaSpec)];
          crdVersion = \<lparr>CustomResourceDefinitionVersion.Name = Version,
                         Schema = Some \<lparr>OpenAPIV3Schema = Some crdSchema\<rparr>,
                         Served = True, Storage = True\<rparr>;
          crdSpec = \<lparr>CustomResourceDefinitionSpec.Group = Group, Names = crdNames,
                      Scope = ''Namespaced'', Versions = [crdVersion]\<rparr>
      in addCRD client crdSpec)"

text \<open>
  \<open>startAux\<close>: what it asks of the client, what it puts on \<open>c.Errors\<close>, and the state
  in which \<open>processResources\<close> is after the given \<open>select\<close> outcomes, if it was called.
\<close>

definition startAux ::
    "crd_server \<Rightarrow> KubeClient \<Rightarrow> string \<Rightarrow> world \<Rightarrow> select_case list
       \<Rightarrow> request list \<times> chan_event list \<times> loop_state option" where
  "startAux crds client namespace w sels =
     (case addFooCRD crds of
        (Returns (Some err), reqs) \<Rightarrow> (reqs, [Send (Errorf ''Could not add CRD'' err), Close], None)
      | (Returns None, reqs) \<Rightarrow>
          (let s = processResources client w sels
           in (reqs @ [GetResources Group Version namespace ''foos'', GetDeployments namespace],
               Errors s, Some s))
      | (Blocks, reqs) \<Rightarrow> (reqs, [], None)
      | (Panics, reqs) \<Rightarrow> (reqs, [], None))"

section \<open>Notions used in the statements\<close>

text \<open>
  The Deployment a call sends, and the calls made for a name: those whose Deployment has an
  owner reference with that name, as every Deployment built by \<open>newDeployment\<close> has for
  its Foo.
\<close>

fun payload :: "api_call \<Rightarrow> Deployment" where
  "payload (AddDeployment d) = d"
| "payload (UpdateDeployment d) = d"

definition call_for :: "string \<Rightarrow> api_call \<Rightarrow> bool" where
  "call_for name c \<longleftrightarrow> list_ex (\<lambda>ref. OwnerReference.Name ref = name) (OwnerReferences (payload c))"

text \<open>What a pass adds to the calls and to the log of the world it started in.\<close>

definition new_calls :: "world \<Rightarrow> world \<Rightarrow> (api_call \<times> error option) list" where
  "new_calls w w' = drop (length (calls w)) (calls w')"

definition new_logs :: "world \<Rightarrow> world \<Rightarrow> log_line list" where
  "new_logs w w' = drop (length (logs w)) (logs w')"

text \<open>
  \<open>processResources\<close> stores every Foo under its own name (line 265); \<open>synchronize\<close>
  is called on such maps only.
\<close>

definition foos_keyed :: "controllerStatus \<Rightarrow> bool" where
  "foos_keyed st \<longleftrightarrow> (\<forall>name foo. foos st name = Some foo \<longrightarrow> ObjectMeta.Name foo = name)"

text \<open>The call that lines 187 to 194 build for a Foo and the Deployment found for it.\<close>

definition the_call :: "Foo \<Rightarrow> Deployment option \<Rightarrow> api_call" where
  "the_call foo has_dep =
     (case has_dep of
        Some dep \<Rightarrow> UpdateDeployment ((newDeployment foo)\<lparr>ResourceVersion := ResourceVersion dep\<rparr>)
      | None \<Rightarrow> AddDeployment (newDeployment foo))"

text \<open>The name asks for a Deployment that exists and that its Foo does not control.\<close>

definition not_owned :: "controllerStatus \<Rightarrow> string \<Rightarrow> bool" where
  "not_owned st item \<longleftrightarrow>
     (case foos st item of
        None \<Rightarrow> False
      | Some foo \<Rightarrow>
          (case deployments st (DeploymentName (Foo.Spec foo)) of
             None \<Rightarrow> False
           | Some dep \<Rightarrow> \<not> IsControlledBy dep foo))"

text \<open>
  What holds of the loop after the \<open>select\<close> outcomes \<open>sels\<close>: while it runs nothing
  was put on \<open>c.Errors\<close> and one channel at least is held; it is done only with both
  channel variables nil; a channel variable is nil exactly when the close notification was
  received; and every Foo is stored under its name.
\<close>

definition loop_inv :: "select_case list \<Rightarrow> loop_state \<Rightarrow> bool" where
  "loop_inv sels s \<longleftrightarrow>
     (phase s = Running \<longrightarrow> Errors s = [] \<and> (deploymentsCh s \<or> foosCh s)) \<and>
     (phase s = Done \<longrightarrow> Errors s = [Close] \<and> \<not> deploymentsCh s \<and> \<not> foosCh s) \<and>
     (\<not> deploymentsCh s \<longrightarrow> FromDeployments None \<in> set sels) \<and>
     (\<not> foosCh s \<longrightarrow> FromFoos None \<in> set sels) \<and>
     (phase s = Running \<and> FromDeployments None \<in> set sels \<longrightarrow> \<not> deploymentsCh s) \<and>
     (phase s = Running \<and> FromFoos None \<in> set sels \<longrightarrow> \<not> foosCh s) \<and>
     foos_keyed (status s)"

definition calls_for :: "string \<Rightarrow> (api_call \<times> error option) list \<Rightarrow> (api_call \<times> error option) list" where
  "calls_for name cs = filter (\<lambda>x. call_for name (fst x)) cs"

section \<open>A cluster to run the controller on\<close>

definition demo_foo :: "string \<Rightarrow> string \<Rightarrow> 32 word \<Rightarrow> Foo" where
  "demo_foo name target n =
     \<lparr>ObjectMeta.Name = name, Namespace = ''default'', ObjectMeta.UID = ''uid-'' @ name,
      ResourceVersion = ''1'', Labels = [], OwnerReferences = [],
      Foo.Spec = \<lparr>DeploymentName = target, FooSpec.Replicas = n\<rparr>\<rparr>"

text \<open>
  Five dirty names: \<open>a\<close> and \<open>e\<close> have a Foo and no Deployment, \<open>b\<close> has no Foo any
  more, the Deployment of \<open>c\<close> is its own but runs 7 replicas for 5 wanted, and the
  Deployment \<open>dd\<close> that \<open>d\<close> asks for belongs to somebody else.
\<close>

definition demo_status :: controllerStatus where
  "demo_status =
     \<lparr>foos = [''a'' \<mapsto> demo_foo ''a'' ''da'' 3, ''c'' \<mapsto> demo_foo ''c'' ''dc'' 5,
              ''d'' \<mapsto> demo_foo ''d'' ''dd'' 2, ''e'' \<mapsto> demo_foo ''e'' ''de'' 1],
      deployments =
        [''dc'' \<mapsto> (newDeployment (demo_foo ''c'' ''dc'' 7))\<lparr>ResourceVersion := ''41''\<rparr>,
         ''dd'' \<mapsto> (newDeployment (demo_foo ''other'' ''dd'' 2))\<lparr>ResourceVersion := ''17''\<rparr>],
      todo = {''a'', ''b'', ''c'', ''d'', ''e''}\<rparr>"

definition quiet_world :: world where
  "quiet_world = \<lparr>calls = [], logs = [], ticks = 0\<rparr>"

definition accepts :: KubeClient where
  "accepts = (\<lambda>history call. None)"

definition rejects :: KubeClient where
  "rejects = (\<lambda>history call. Some (RequestError 500))"

text \<open>
  The record carries an owner reference that names the kind as controller: an owner
  reference of that kind with the controller flag set.
\<close>

definition names_kind_as_controller :: "string \<Rightarrow> Deployment \<Rightarrow> bool" where
  "names_kind_as_controller k d \<longleftrightarrow>
     list_ex (\<lambda>ref. OwnerReference.Kind ref = k \<and> Controller ref = Some True) (OwnerReferences d)"

text \<open>A Deployment that a Foo owns without being its controller.\<close>

definition plainly_owned :: Deployment where
  "plainly_owned =
     (newDeployment (demo_foo ''a'' ''da'' 3))
       \<lparr>OwnerReferences := [(NewControllerRef (demo_foo ''a'' ''da'' 3) Group Version Kind)\<lparr>Controller := None\<rparr>]\<rparr>"

definition demo_event :: "'a \<Rightarrow> 'a WatchEvent" where
  "demo_event item = \<lparr>Item = Some item, IsDelete = False, Err = None\<rparr>"

definition broken_event :: "error \<Rightarrow> 'a WatchEvent" where
  "broken_event e = \<lparr>Item = None, IsDelete = False, Err = Some e\<rparr>"

text \<open>What the loop knows after the Foo \<open>a\<close> was announced.\<close>

definition announced :: controllerStatus where
  "announced = \<lparr>foos = [''a'' \<mapsto> demo_foo ''a'' ''da'' 3], deployments = Map.empty, todo = {''a''}\<rparr>"

text \<open>An API server that refuses the connection on create, and whose watch reports the
  definition as established.\<close>

definition established :: CustomResourceDefinition where
  "established =
     \<lparr>ObjectMeta.Name = ''foos.samplecontroller.example.com'', Namespace = [], ObjectMeta.UID = ''uid-crd'',
      ResourceVersion = ''1'', Labels = [], OwnerReferences = [],
      CustomResourceDefinition.Spec =
        \<lparr>CustomResourceDefinitionSpec.Group = Group,
         Names = \<lparr>CustomResourceDefinitionNames.Kind = Kind, Plural = ''foos''\<rparr>,
         Scope = ''Namespaced'', Versions = []\<rparr>,
      CustomResourceDefinition.Status =
        \<lparr>Conditions = [\<lparr>CustomResourceDefinitionCondition.Type = ''Established'',
                         CustomResourceDefinitionCondition.Status = ''True''\<rparr>]\<rparr>\<rparr>"

definition unreachable_server :: crd_server where
  "unreachable_server =
     \<lparr>create_answer = (\<lambda>crd. Some (OtherError ''dial tcp: connection refused'')),
      watch_answer = (\<lambda>name. ([demo_event established], False))\<rparr>"






section \<open>One iteration of the loop of synchronize\<close>

lemma apply_newDeployment_eq:
  "apply_newDeployment client item foo has_dep st w =
     (case client (calls w) (the_call foo has_dep) of
        Some e \<Rightarrow> (Return e, st, w\<lparr>calls := calls w @ [(the_call foo has_dep, Some e)]\<rparr>)
      | None \<Rightarrow> (Next, st\<lparr>todo := todo st - {item}\<rparr>,
                  w\<lparr>calls := calls w @ [(the_call foo has_dep, None)]\<rparr>))"
  by (simp add: apply_newDeployment_def the_call_def Let_def split: option.splits)

lemma synchronize_item_cases:
  obtains
    (no_foo) "foos st item = None"
      "synchronize_item client item st w = (Next, st\<lparr>todo := todo st - {item}\<rparr>, w)"
  | (not_owned) foo dep where "foos st item = Some foo"
      "deployments st (DeploymentName (Foo.Spec foo)) = Some dep" "\<not> IsControlledBy dep foo"
      "synchronize_item client item st w =
         (Next, st, w\<lparr>logs := logs w @ [NotOwnedByUs (Namespace dep) (ObjectMeta.Name dep)]\<rparr>)"
  | (nil_replicas) foo dep where "foos st item = Some foo"
      "deployments st (DeploymentName (Foo.Spec foo)) = Some dep" "IsControlledBy dep foo"
      "DeploymentSpec.Replicas (Deployment.Spec dep) = None"
      "synchronize_item client item st w = (Panic, st, w)"
  | (converged) foo dep where "foos st item = Some foo"
      "deployments st (DeploymentName (Foo.Spec foo)) = Some dep" "IsControlledBy dep foo"
      "DeploymentSpec.Replicas (Deployment.Spec dep) = Some (FooSpec.Replicas (Foo.Spec foo))"
      "synchronize_item client item st w = (Next, st\<lparr>todo := todo st - {item}\<rparr>, w)"
  | (update) foo dep r where "foos st item = Some foo"
      "deployments st (DeploymentName (Foo.Spec foo)) = Some dep" "IsControlledBy dep foo"
      "DeploymentSpec.Replicas (Deployment.Spec dep) = Some r" "r \<noteq> FooSpec.Replicas (Foo.Spec foo)"
      "synchronize_item client item st w = apply_newDeployment client item foo (Some dep) st w"
  | (create) foo where "foos st item = Some foo"
      "deployments st (DeploymentName (Foo.Spec foo)) = None"
      "synchronize_item client item st w = apply_newDeployment client item foo None st w"
proof (cases "foos st item")
  case None
  then show ?thesis using no_foo by (simp add: synchronize_item_def)
next
  case (Some foo)
  show ?thesis
  proof (cases "deployments st (DeploymentName (Foo.Spec foo))")
    case None
    with Some show ?thesis using create by (simp add: synchronize_item_def)
  next
    case dep: (Some dep)
    show ?thesis
    proof (cases "IsControlledBy dep foo")
      case False
      with Some dep show ?thesis using not_owned by (simp add: synchronize_item_def)
    next
      case True
      show ?thesis
      proof (cases "DeploymentSpec.Replicas (Deployment.Spec dep)")
        case None
        with Some dep True show ?thesis using nil_replicas by (simp add: synchronize_item_def)
      next
        case r: (Some r)
        show ?thesis
        proof (cases "r = FooSpec.Replicas (Foo.Spec foo)")
          case True
          with Some dep \<open>IsControlledBy dep foo\<close> r show ?thesis
            using converged by (simp add: synchronize_item_def)
        next
          case False
          with Some dep \<open>IsControlledBy dep foo\<close> r show ?thesis
            using update[of foo dep r] by (simp add: synchronize_item_def)
        qed
      qed
    qed
  qed
qed

lemma synchronize_item_frame:
  assumes "synchronize_item client item st w = (r, st', w')"
  shows "foos st' = foos st" and "deployments st' = deployments st"
    and "todo st' \<subseteq> todo st" and "todo st - {item} \<subseteq> todo st'"
  using assms
  by (cases rule: synchronize_item_cases[of st item client w];
      auto simp: apply_newDeployment_eq split: option.splits)+

section \<open>A pass leaves the maps alone\<close>

lemma frame_of_pass:
  "synchronize client order st w = (r, st', w') \<Longrightarrow>
     foos st' = foos st \<and> deployments st' = deployments st \<and>
     todo st' \<subseteq> todo st \<and> todo st - set order \<subseteq> todo st'"
proof (induction order arbitrary: st w)
  case Nil
  then show ?case by simp
next
  case (Cons item rest)
  obtain r1 s1 w1 where it: "synchronize_item client item st w = (r1, s1, w1)"
    by (metis prod_cases3)
  note fr = synchronize_item_frame[OF it]
  show ?case
  proof (cases r1)
    case Next
    with Cons.prems it have "synchronize client rest s1 w1 = (r, st', w')" by simp
    from Cons.IH[OF this] fr show ?thesis by auto
  next
    case (Return e)
    with Cons.prems it have "st' = s1" by simp
    with fr show ?thesis by auto
  next
    case Panic
    with Cons.prems it have "st' = s1" by simp
    with fr show ?thesis by auto
  qed
qed

text \<open>
  Claim C10. Whatever a call of \<open>synchronize\<close> returns (nil, an error, or a panic), the
  maps \<open>foos\<close> and \<open>deployments\<close> are as they were, and \<open>todo\<close> afterwards is
  a subset of \<open>todo\<close> before: names are only ever deleted.
\<close>

theorem synchronize_frame:
  "foos (fst (snd (synchronize client order st w))) = foos st \<and>
   deployments (fst (snd (synchronize client order st w))) = deployments st \<and>
   todo (fst (snd (synchronize client order st w))) \<subseteq> todo st"
  using frame_of_pass[of client order st w] by (metis prod.collapse)

section \<open>The calls of a pass\<close>

lemma call_for_the_call: "call_for name (the_call foo has_dep) \<longleftrightarrow> ObjectMeta.Name foo = name"
  by (simp add: call_for_def the_call_def newDeployment_def NewControllerRef_def Let_def
      split: option.splits)

lemma synchronize_item_world:
  assumes "synchronize_item client item st w = (r, st', w')"
  obtains (silent) "calls w' = calls w" "r = Next \<or> r = Panic"
  | (called) foo has_dep where "foos st item = Some foo"
      "has_dep = deployments st (DeploymentName (Foo.Spec foo))"
      "calls w' = calls w @ [(the_call foo has_dep, client (calls w) (the_call foo has_dep))]"
      "r = (case client (calls w) (the_call foo has_dep) of None \<Rightarrow> Next | Some e \<Rightarrow> Return e)"
      "logs w' = logs w"
  using assms
  by (cases rule: synchronize_item_cases[of st item client w];
      fastforce simp: apply_newDeployment_eq split: option.splits)

lemma synchronize_item_ticks:
  "synchronize_item client item st w = (r, st', w') \<Longrightarrow> ticks w' = ticks w"
  by (cases rule: synchronize_item_cases[of st item client w];
      auto simp: apply_newDeployment_eq split: option.splits)

lemma synchronize_item_grows:
  assumes "synchronize_item client item st w = (r, st', w')"
  shows "\<exists>cs ls. calls w' = calls w @ cs \<and> logs w' = logs w @ ls \<and> ticks w' = ticks w"
  using assms
  by (cases rule: synchronize_item_cases[of st item client w];
      auto simp: apply_newDeployment_eq split: option.splits)

lemma synchronize_item_Return:
  assumes "synchronize_item client item st w = (Return e, st', w')"
  shows "st' = st" and "\<exists>c. calls w' = calls w @ [(c, Some e)]"
  using assms
  by (cases rule: synchronize_item_cases[of st item client w];
      auto simp: apply_newDeployment_eq split: option.splits)+

lemma synchronize_item_Panic:
  assumes "synchronize_item client item st w = (Panic, st', w')"
  shows "st' = st" and "w' = w"
  using assms
  by (cases rule: synchronize_item_cases[of st item client w];
      auto simp: apply_newDeployment_eq split: option.splits)+

lemma synchronize_append:
  "synchronize client (xs @ ys) st w =
     (case synchronize client xs st w of
        (Next, st1, w1) \<Rightarrow> synchronize client ys st1 w1
      | (Return e, st1, w1) \<Rightarrow> (Return e, st1, w1)
      | (Panic, st1, w1) \<Rightarrow> (Panic, st1, w1))"
proof (induction xs arbitrary: st w)
  case Nil
  show ?case by simp
next
  case (Cons x xs)
  obtain r1 s1 w1 where it: "synchronize_item client x st w = (r1, s1, w1)"
    by (metis prod_cases3)
  show ?case using it Cons.IH[of s1 w1] by (cases r1) simp_all
qed

text \<open>The calls of a pass are made for the names it visits.\<close>

lemma synchronize_calls_for:
  assumes "synchronize client order st w = (r, st', w')" and "foos_keyed st"
  shows "\<exists>cs. calls w' = calls w @ cs \<and> (\<forall>x\<in>set cs. \<forall>name. call_for name (fst x) \<longrightarrow> name \<in> set order)"
  using assms
proof (induction order arbitrary: st w)
  case Nil
  then show ?case by simp
next
  case (Cons item rest)
  obtain r1 s1 w1 where it: "synchronize_item client item st w = (r1, s1, w1)"
    by (metis prod_cases3)
  have k1: "foos_keyed s1"
    using synchronize_item_frame(1)[OF it] Cons.prems(2) by (simp add: foos_keyed_def)
  from it obtain c1 where c1: "calls w1 = calls w @ c1"
    and f1: "\<forall>x\<in>set c1. \<forall>name. call_for name (fst x) \<longrightarrow> name = item"
  proof (cases rule: synchronize_item_world)
    case silent
    then have "calls w1 = calls w @ []" by simp
    then show ?thesis using that[of "[]"] by fastforce
  next
    case (called foo has_dep)
    have "ObjectMeta.Name foo = item" using called(1) Cons.prems(2) by (simp add: foos_keyed_def)
    then have "\<forall>name. call_for name (the_call foo has_dep) \<longrightarrow> name = item"
      by (simp add: call_for_the_call)
    then have "\<forall>x\<in>set [(the_call foo has_dep, client (calls w) (the_call foo has_dep))].
                 \<forall>name. call_for name (fst x) \<longrightarrow> name = item" by simp
    with called(3) show ?thesis by (rule that)
  qed
  show ?case
  proof (cases r1)
    case Next
    with Cons.prems it have "synchronize client rest s1 w1 = (r, st', w')" by simp
    from Cons.IH[OF this k1] obtain c2 where "calls w' = calls w1 @ c2"
      and "\<forall>x\<in>set c2. \<forall>name. call_for name (fst x) \<longrightarrow> name \<in> set rest" by blast
    with c1 f1 show ?thesis by (intro exI[of _ "c1 @ c2"]) auto
  next
    case (Return e)
    with Cons.prems it have "w' = w1" by simp
    with c1 f1 show ?thesis by (intro exI[of _ c1]) auto
  next
    case Panic
    with Cons.prems it have "w' = w1" by simp
    with c1 f1 show ?thesis by (intro exI[of _ c1]) auto
  qed
qed

lemma new_calls_append: "calls w' = calls w @ cs \<Longrightarrow> new_calls w w' = cs"
  by (simp add: new_calls_def)

lemma new_logs_append: "logs w' = logs w @ ls \<Longrightarrow> new_logs w w' = ls"
  by (simp add: new_logs_def)

lemma synchronize_calls_other:
  assumes "synchronize client order st w = (r, st', w')" and "foos_keyed st" and "name \<notin> set order"
  shows "\<exists>cs. calls w' = calls w @ cs \<and> filter (\<lambda>x. call_for name (fst x)) cs = []"
proof -
  from synchronize_calls_for[OF assms(1,2)] obtain cs where "calls w' = calls w @ cs"
    and "\<forall>x\<in>set cs. \<forall>name. call_for name (fst x) \<longrightarrow> name \<in> set order" by blast
  with assms(3) show ?thesis by (intro exI[of _ cs]) (auto simp: filter_empty_conv)
qed

lemma synchronize_world_grows:
  assumes "synchronize client order st w = (r, st', w')"
  shows "\<exists>cs ls. calls w' = calls w @ cs \<and> logs w' = logs w @ ls \<and> ticks w' = ticks w"
  using assms
proof (induction order arbitrary: st w)
  case Nil
  then show ?case by simp
next
  case (Cons item rest)
  obtain r1 s1 w1 where it: "synchronize_item client item st w = (r1, s1, w1)"
    by (metis prod_cases3)
  note g1 = synchronize_item_grows[OF it]
  show ?case
  proof (cases r1)
    case Next
    with Cons.prems it have "synchronize client rest s1 w1 = (r, st', w')" by simp
    from Cons.IH[OF this] g1 show ?thesis by auto
  next
    case (Return e)
    with Cons.prems it have "w' = w1" by simp
    with g1 show ?thesis by simp
  next
    case Panic
    with Cons.prems it have "w' = w1" by simp
    with g1 show ?thesis by simp
  qed
qed

lemma synchronize_Return:
  assumes "synchronize client order st w = (Return e, st', w')"
  shows "\<exists>pre item post s1 w1. order = pre @ item # post \<and>
           synchronize client pre st w = (Next, s1, w1) \<and>
           synchronize_item client item s1 w1 = (Return e, st', w')"
  using assms
proof (induction order arbitrary: st w)
  case Nil
  then show ?case by simp
next
  case (Cons x rest)
  obtain r1 s1 w1 where it: "synchronize_item client x st w = (r1, s1, w1)"
    by (metis prod_cases3)
  show ?case
  proof (cases r1)
    case Next
    with Cons.prems it have "synchronize client rest s1 w1 = (Return e, st', w')" by simp
    from Cons.IH[OF this] obtain pre item post s2 w2 where
      "rest = pre @ item # post" "synchronize client pre s1 w1 = (Next, s2, w2)"
      "synchronize_item client item s2 w2 = (Return e, st', w')" by blast
    then show ?thesis using it Next
      by (intro exI[of _ "x # pre"] exI[of _ item] exI[of _ post] exI[of _ s2] exI[of _ w2]) simp
  next
    case (Return e')
    with Cons.prems it have "synchronize_item client x st w = (Return e, st', w')" by simp
    then show ?thesis
      by (intro exI[of _ "[]"] exI[of _ x] exI[of _ rest] exI[of _ st] exI[of _ w]) simp
  next
    case Panic
    with Cons.prems it show ?thesis by simp
  qed
qed

text \<open>Only the last call of a pass can have been answered with an error.\<close>

lemma synchronize_answers:
  assumes "synchronize client order st w = (r, st', w')"
  shows "\<exists>cs. calls w' = calls w @ cs \<and>
           (case r of
              Return e \<Rightarrow> cs \<noteq> [] \<and> snd (last cs) = Some e \<and> (\<forall>x\<in>set (butlast cs). snd x = None)
            | _ \<Rightarrow> \<forall>x\<in>set cs. snd x = None)"
  using assms
proof (induction order arbitrary: st w)
  case Nil
  then show ?case by simp
next
  case (Cons item rest)
  obtain r1 s1 w1 where it: "synchronize_item client item st w = (r1, s1, w1)"
    by (metis prod_cases3)
  show ?case
  proof (cases r1)
    case Next
    with Cons.prems it have rest: "synchronize client rest s1 w1 = (r, st', w')" by simp
    from it Next obtain c1 where c1: "calls w1 = calls w @ c1" "\<forall>x\<in>set c1. snd x = None"
    proof (cases rule: synchronize_item_world)
      case silent
      then have "calls w1 = calls w @ []" by simp
      then show ?thesis using that[of "[]"] by fastforce
    next
      case (called foo has_dep)
      from called(4) Next have "client (calls w) (the_call foo has_dep) = None"
        by (simp split: option.splits)
      then have "\<forall>x\<in>set [(the_call foo has_dep, client (calls w) (the_call foo has_dep))]. snd x = None"
        by simp
      with called(3) show ?thesis by (rule that)
    qed
    from Cons.IH[OF rest] obtain c2 where c2: "calls w' = calls w1 @ c2"
      "(case r of
          Return e \<Rightarrow> c2 \<noteq> [] \<and> snd (last c2) = Some e \<and> (\<forall>x\<in>set (butlast c2). snd x = None)
        | _ \<Rightarrow> \<forall>x\<in>set c2. snd x = None)" by blast
    show ?thesis using c1 c2
      by (intro exI[of _ "c1 @ c2"]) (cases r; auto simp: butlast_append)
  next
    case (Return e)
    with Cons.prems it have "w' = w1" "r = Return e" by simp_all
    with synchronize_item_Return(2)[of client item st w e s1 w1] it Return show ?thesis by auto
  next
    case Panic
    with Cons.prems it have "w' = w1" "r = Panic" by simp_all
    with synchronize_item_Panic(2)[of client item st w s1 w1] it Panic show ?thesis by auto
  qed
qed

section \<open>What a pass that returned nil leaves in todo\<close>

lemma not_owned_cong:
  "foos st' = foos st \<Longrightarrow> deployments st' = deployments st \<Longrightarrow> not_owned st' item = not_owned st item"
  by (simp add: not_owned_def cong: option.case_cong)

lemma synchronize_item_kept:
  assumes "synchronize_item client item st w = (Next, st', w')" and "item \<in> todo st'"
  shows "not_owned st item"
  using assms
  by (cases rule: synchronize_item_cases[of st item client w];
      auto simp: apply_newDeployment_eq not_owned_def split: option.splits)

lemma synchronize_item_not_owned:
  assumes "not_owned st item"
  shows "\<exists>w'. synchronize_item client item st w = (Next, st, w') \<and> calls w' = calls w"
  using assms
  by (cases rule: synchronize_item_cases[of st item client w];
      auto simp: not_owned_def split: option.splits)

lemma synchronize_kept:
  assumes "synchronize client order st w = (Next, st', w')" and "item \<in> set order" and "item \<in> todo st'"
  shows "not_owned st item"
  using assms
proof (induction order arbitrary: st w)
  case Nil
  then show ?case by simp
next
  case (Cons x rest)
  obtain r1 s1 w1 where it: "synchronize_item client x st w = (r1, s1, w1)"
    by (metis prod_cases3)
  have r1: "r1 = Next" using Cons.prems(1) it by (cases r1) auto
  with Cons.prems it have rest: "synchronize client rest s1 w1 = (Next, st', w')" by simp
  note fr = synchronize_item_frame[OF it]
  have sub: "todo st' \<subseteq> todo s1" using frame_of_pass[OF rest] by simp
  show ?case
  proof (cases "item = x")
    case True
    with Cons.prems(3) sub have "x \<in> todo s1" by auto
    with it r1 True show ?thesis using synchronize_item_kept by blast
  next
    case False
    with Cons.prems(2) have "item \<in> set rest" by simp
    from Cons.IH[OF rest this Cons.prems(3)] have "not_owned s1 item" .
    with fr(1,2) not_owned_cong[of s1 st item] show ?thesis by simp
  qed
qed

lemma synchronize_all_not_owned:
  assumes "\<forall>item\<in>set order. not_owned st item"
  shows "\<exists>w'. synchronize client order st w = (Next, st, w') \<and> calls w' = calls w"
  using assms
proof (induction order arbitrary: w)
  case Nil
  then show ?case by simp
next
  case (Cons x rest)
  from Cons.prems have "not_owned st x" by simp
  from synchronize_item_not_owned[OF this, of client w] obtain w1 where
    it: "synchronize_item client x st w = (Next, st, w1)" "calls w1 = calls w" by blast
  from Cons.prems have "\<forall>item\<in>set rest. not_owned st item" by simp
  from Cons.IH[OF this, of w1] obtain w' where
    "synchronize client rest st w1 = (Next, st, w')" "calls w' = calls w1" by blast
  with it show ?case by simp
qed

text \<open>
  A pass cut at a name of its order: either the names before it ended the pass, or the
  name is reached in a state that differs from the first in \<open>todo\<close> alone.
\<close>

lemma synchronize_split:
  assumes run: "synchronize client (pre @ item # post) st w = (r, st', w')"
    and keyed: "foos_keyed st" and dist: "distinct (pre @ item # post)"
  obtains (aborted) "synchronize client pre st w = (r, st', w')" "r \<noteq> Next"
      "filter (\<lambda>x. call_for item (fst x)) (new_calls w w') = []"
      "item \<in> todo st \<longleftrightarrow> item \<in> todo st'"
  | (reached) s1 w1 r2 s2 w2 where "synchronize client pre st w = (Next, s1, w1)"
      "synchronize_item client item s1 w1 = (r2, s2, w2)"
      "foos s1 = foos st" "deployments s1 = deployments st"
      "item \<in> todo s1 \<longleftrightarrow> item \<in> todo st"
      "item \<in> todo st' \<longleftrightarrow> item \<in> todo s2"
      "filter (\<lambda>x. call_for item (fst x)) (new_calls w w')
         = filter (\<lambda>x. call_for item (fst x)) (new_calls w1 w2)"
      "set (new_logs w1 w2) \<subseteq> set (new_logs w w')"
proof -
  from dist have npre: "item \<notin> set pre" and npost: "item \<notin> set post" by auto
  obtain r0 s1 w1 where p: "synchronize client pre st w = (r0, s1, w1)"
    by (metis prod_cases3)
  note fp = frame_of_pass[OF p]
  from synchronize_calls_other[OF p keyed npre] obtain c0 where
    c0: "calls w1 = calls w @ c0" "filter (\<lambda>x. call_for item (fst x)) c0 = []" by blast
  from synchronize_world_grows[OF p] obtain l0 where l0: "logs w1 = logs w @ l0" by blast
  have in1: "item \<in> todo s1 \<longleftrightarrow> item \<in> todo st" using fp npre by auto
  show ?thesis
  proof (cases "r0 = Next")
    case False
    with run p have eq: "(r, st', w') = (r0, s1, w1)"
      by (cases r0) (simp_all add: synchronize_append)
    with p False c0 in1 show ?thesis
      by (intro aborted) (auto simp: new_calls_append)
  next
    case True
    obtain r2 s2 w2 where it: "synchronize_item client item s1 w1 = (r2, s2, w2)"
      by (metis prod_cases3)
    note fi = synchronize_item_frame[OF it]
    from synchronize_item_grows[OF it] obtain c1 l1 where
      c1: "calls w2 = calls w1 @ c1" and l1: "logs w2 = logs w1 @ l1" by blast
    have "\<exists>c2 l2. calls w' = calls w2 @ c2 \<and> logs w' = logs w2 @ l2 \<and>
            filter (\<lambda>x. call_for item (fst x)) c2 = [] \<and> (item \<in> todo st' \<longleftrightarrow> item \<in> todo s2)"
    proof (cases "r2 = Next")
      case False
      with run p True it have "(r, st', w') = (r2, s2, w2)"
        by (cases r2) (simp_all add: synchronize_append)
      then show ?thesis by simp
    next
      case r2: True
      with run p True it have q: "synchronize client post s2 w2 = (r, st', w')"
        by (simp add: synchronize_append)
      have k2: "foos_keyed s2" using keyed fp fi by (simp add: foos_keyed_def)
      from synchronize_calls_other[OF q k2 npost] obtain c2 where
        "calls w' = calls w2 @ c2" "filter (\<lambda>x. call_for item (fst x)) c2 = []" by blast
      moreover from synchronize_world_grows[OF q] obtain l2 where "logs w' = logs w2 @ l2" by blast
      moreover have "item \<in> todo st' \<longleftrightarrow> item \<in> todo s2"
        using frame_of_pass[OF q] npost by auto
      ultimately show ?thesis by blast
    qed
    then obtain c2 l2 where c2: "calls w' = calls w2 @ c2" and l2: "logs w' = logs w2 @ l2"
      and f2: "filter (\<lambda>x. call_for item (fst x)) c2 = []"
      and in2: "item \<in> todo st' \<longleftrightarrow> item \<in> todo s2" by blast
    have a: "new_calls w w' = c0 @ c1 @ c2" using c0 c1 c2 by (simp add: new_calls_def)
    have b: "new_calls w1 w2 = c1" using c1 by (simp add: new_calls_def)
    have c: "new_logs w w' = l0 @ l1 @ l2" using l0 l1 l2 by (simp add: new_logs_def)
    have d: "new_logs w1 w2 = l1" using l1 by (simp add: new_logs_def)
    show ?thesis
    proof (rule reached[OF _ it])
      show "synchronize client pre st w = (Next, s1, w1)" using p True by simp
      show "foos s1 = foos st" "deployments s1 = deployments st" using fp by simp_all
      show "item \<in> todo s1 \<longleftrightarrow> item \<in> todo st" by (rule in1)
      show "item \<in> todo st' \<longleftrightarrow> item \<in> todo s2" by (rule in2)
      show "filter (\<lambda>x. call_for item (fst x)) (new_calls w w')
              = filter (\<lambda>x. call_for item (fst x)) (new_calls w1 w2)"
        using a b c0(2) f2 by simp
      show "set (new_logs w1 w2) \<subseteq> set (new_logs w w')" using c d by auto
    qed
  qed
qed

lemma synchronize_item_no_foo:
  "foos st item = None \<Longrightarrow>
   synchronize_item client item st w = (Next, st\<lparr>todo := todo st - {item}\<rparr>, w)"
  by (simp add: synchronize_item_def)








lemma no_foo_at:
  assumes run: "synchronize client (pre @ item # post) st w = (r, st', w')"
    and keyed: "foos_keyed st" and dist: "distinct (pre @ item # post)"
    and foo: "foos st item = None"
  shows "filter (\<lambda>x. call_for item (fst x)) (new_calls w w') = []
         \<and> (fst (synchronize client pre st w) = Next \<longrightarrow> item \<notin> todo st')"
  using run keyed dist
proof (cases rule: synchronize_split)
  case aborted
  then show ?thesis by simp
next
  case (reached s1 w1 r2 s2 w2)
  have "synchronize_item client item s1 w1 = (Next, s1\<lparr>todo := todo s1 - {item}\<rparr>, w1)"
    using reached(3) foo by (intro synchronize_item_no_foo) simp
  with reached(2) have "s2 = s1\<lparr>todo := todo s1 - {item}\<rparr>" "w2 = w1" by simp_all
  then have "new_calls w1 w2 = []" "item \<notin> todo s2" by (simp_all add: new_calls_def)
  with reached(6,7) show ?thesis by simp
qed

section \<open>The loop of processResources\<close>

lemma processResources_snoc:
  "processResources client w (sels @ [sel]) = processResources_step client (processResources client w sels) sel"
  by (simp add: processResources_def)

lemma processResources_Nil: "processResources client w [] = processResources_init w"
  by (simp add: processResources_def)

text \<open>What an iteration does to the part of the state that decides termination.\<close>

lemma end_of_iteration_simps:
  "status (end_of_iteration s) = status s"
  "outside (end_of_iteration s) = outside s"
  "deploymentsCh (end_of_iteration s) = deploymentsCh s"
  "foosCh (end_of_iteration s) = foosCh s"
  "phase s = Running \<Longrightarrow> phase (end_of_iteration s) = (if \<not> deploymentsCh s \<and> \<not> foosCh s then Done else Running)"
  "Errors (end_of_iteration s) = (if \<not> deploymentsCh s \<and> \<not> foosCh s then Errors s @ [Close] else Errors s)"
  by (simp_all add: end_of_iteration_def)

lemma mark_owner_simps:
  "deploymentsCh (mark_owner item s) = deploymentsCh s"
  "foosCh (mark_owner item s) = foosCh s"
  "Errors (mark_owner item s) = Errors s"
  "phase (mark_owner item s) = phase s"
  "foos (status (mark_owner item s)) = foos (status s)"
  "deployments (status (mark_owner item s)) = deployments (status s)"
  by (simp_all add: mark_owner_def split: option.splits)

lemma case_ratelimiter_eq:
  assumes "synchronize client order (status s) (outside s) = (r, st', w')"
  shows "case_ratelimiter client order s =
     (case r of
        Next \<Rightarrow> end_of_iteration (s\<lparr>status := st', outside := w'\<rparr>)
      | Return err \<Rightarrow>
          end_of_iteration
            (s\<lparr>status := st',
               outside := w'\<lparr>logs := logs w' @ [SynchronizeFailed err], ticks := Suc (ticks w')\<rparr>\<rparr>)
      | Panic \<Rightarrow> panic (s\<lparr>status := st', outside := w'\<rparr>))"
  using assms by (cases r) (simp_all add: case_ratelimiter_def)

lemma case_ratelimiter_control:
  "deploymentsCh (case_ratelimiter client order s) = deploymentsCh s"
  "foosCh (case_ratelimiter client order s) = foosCh s"
  "foos (status (case_ratelimiter client order s)) = foos (status s)"
proof -
  obtain r st' w' where run: "synchronize client order (status s) (outside s) = (r, st', w')"
    by (metis prod_cases3)
  have f: "foos st' = foos (status s)" using frame_of_pass[OF run] by simp
  show "deploymentsCh (case_ratelimiter client order s) = deploymentsCh s"
    by (cases r) (simp_all add: case_ratelimiter_eq[OF run] end_of_iteration_simps panic_def)
  show "foosCh (case_ratelimiter client order s) = foosCh s"
    by (cases r) (simp_all add: case_ratelimiter_eq[OF run] end_of_iteration_simps panic_def)
  show "foos (status (case_ratelimiter client order s)) = foos (status s)"
    using f by (cases r) (simp_all add: case_ratelimiter_eq[OF run] end_of_iteration_simps panic_def)
qed

lemma case_ratelimiter_phase:
  assumes "phase s = Running" "deploymentsCh s \<or> foosCh s"
  shows "phase (case_ratelimiter client order s) = Running \<and> Errors (case_ratelimiter client order s) = Errors s
         \<or> phase (case_ratelimiter client order s) = Panicked"
proof -
  obtain r st' w' where run: "synchronize client order (status s) (outside s) = (r, st', w')"
    by (metis prod_cases3)
  show ?thesis using assms
    by (cases r) (auto simp: case_ratelimiter_eq[OF run] end_of_iteration_def panic_def)
qed

lemma loop_inv_init: "loop_inv [] (processResources_init w)"
  by (simp add: loop_inv_def processResources_init_def foos_keyed_def)

lemma loop_inv_deployments:
  assumes "loop_inv sels s" "phase s = Running" "deploymentsCh s"
  shows "loop_inv (sels @ [FromDeployments d]) (case_deployments d s)"
  using assms
  by (auto simp: loop_inv_def case_deployments_def end_of_iteration_def fail_with_def panic_def
      mark_owner_simps foos_keyed_def split: option.splits)

lemma loop_inv_foos:
  assumes "loop_inv sels s" "phase s = Running" "foosCh s"
  shows "loop_inv (sels @ [FromFoos f]) (case_foos f s)"
  using assms
  by (auto simp: loop_inv_def case_foos_def end_of_iteration_def fail_with_def panic_def
      foos_keyed_def split: option.splits)

lemma loop_inv_ratelimiter:
  assumes "loop_inv sels s" "phase s = Running"
  shows "loop_inv (sels @ [FromRateLimiter order]) (case_ratelimiter client order s)"
proof -
  from assms have live: "deploymentsCh s \<or> foosCh s" and e: "Errors s = []"
    by (simp_all add: loop_inv_def)
  from case_ratelimiter_phase[OF assms(2) live, of client order] case_ratelimiter_control[of client order s]
    assms e show ?thesis
    by (auto simp: loop_inv_def foos_keyed_def)
qed

lemma loop_inv_stutter: "loop_inv sels s \<Longrightarrow> phase s \<noteq> Running \<Longrightarrow> loop_inv (sels @ [sel]) s"
  by (auto simp: loop_inv_def)

lemma loop_inv_skip:
  "loop_inv sels s \<Longrightarrow> sel \<noteq> FromDeployments None \<Longrightarrow> sel \<noteq> FromFoos None \<Longrightarrow> loop_inv (sels @ [sel]) s"
  by (auto simp: loop_inv_def)

lemma loop_inv_step:
  assumes "loop_inv sels s"
  shows "loop_inv (sels @ [sel]) (processResources_step client s sel)"
proof (cases "phase s = Running")
  case False
  with assms show ?thesis by (simp add: processResources_step_def loop_inv_stutter)
next
  case True
  show ?thesis
  proof (cases sel)
    case (FromDeployments d)
    show ?thesis
    proof (cases "deploymentsCh s")
      case True
      with assms \<open>phase s = Running\<close> FromDeployments show ?thesis
        by (simp add: processResources_step_def loop_inv_deployments)
    next
      case False
      with assms \<open>phase s = Running\<close> FromDeployments show ?thesis
        by (auto simp: processResources_step_def loop_inv_def)
    qed
  next
    case (FromFoos f)
    show ?thesis
    proof (cases "foosCh s")
      case True
      with assms \<open>phase s = Running\<close> FromFoos show ?thesis
        by (simp add: processResources_step_def loop_inv_foos)
    next
      case False
      with assms \<open>phase s = Running\<close> FromFoos show ?thesis
        by (auto simp: processResources_step_def loop_inv_def)
    qed
  next
    case (FromRateLimiter order)
    with assms True show ?thesis
      by (auto simp: processResources_step_def loop_inv_ratelimiter loop_inv_skip)
  qed
qed

lemma loop_inv_processResources: "loop_inv sels (processResources client w sels)"
proof (induction sels rule: rev_induct)
  case Nil
  show ?case by (simp add: processResources_Nil loop_inv_init)
next
  case (snoc sel sels)
  then show ?case by (simp add: processResources_snoc loop_inv_step)
qed

text \<open>The maps on which the loop calls \<open>synchronize\<close> store every Foo under its name.\<close>

lemma processResources_foos_keyed: "foos_keyed (status (processResources client w sels))"
  using loop_inv_processResources[of sels client w] by (simp add: loop_inv_def)

section \<open>What synchronize does for a dirty name\<close>

lemma newDeployment_fields:
  "ObjectMeta.Name (newDeployment foo) = DeploymentName (Foo.Spec foo)"
  "DeploymentSpec.Replicas (Deployment.Spec (newDeployment foo)) = Some (FooSpec.Replicas (Foo.Spec foo))"
  "OwnerReferences (newDeployment foo) = [NewControllerRef foo Group Version Kind]"
  "OwnerReference.Name (NewControllerRef foo Group Version Kind) = ObjectMeta.Name foo"
  "OwnerReference.Kind (NewControllerRef foo Group Version Kind) = Kind"
  "Controller (NewControllerRef foo Group Version Kind) = Some True"
  by (simp_all add: newDeployment_def NewControllerRef_def Let_def)


text \<open>
  Claim C4, amended. Let \<open>item\<close> be a dirty name with no Foo in \<open>foos\<close>. No pass makes a
  call for \<open>item\<close>; a pass that reaches \<open>item\<close> deletes it from \<open>todo\<close>, and the
  iteration for \<open>item\<close> changes nothing else: no call, no log line.
\<close>

theorem synchronize_drops_deleted_foo:
  assumes "range_order order st" and "foos_keyed st"
    and "item \<in> todo st" and "foos st item = None"
    and "synchronize client order st w = (r, st', w')"
  shows "calls_for item (new_calls w w') = []
       \<and> (\<forall>pre post. order = pre @ item # post \<and> fst (synchronize client pre st w) = Next
             \<longrightarrow> item \<notin> todo st'
                 \<and> synchronize_item client item (fst (snd (synchronize client pre st w)))
                      (snd (snd (synchronize client pre st w)))
                    = (Next, (fst (snd (synchronize client pre st w)))
                               \<lparr>todo := todo (fst (snd (synchronize client pre st w))) - {item}\<rparr>,
                       snd (snd (synchronize client pre st w))))"
proof -
  from assms(1) have dist: "distinct order" and mem: "item \<in> set order"
    using assms(3) by (simp_all add: range_order_def)
  from mem obtain pre0 post0 where o0: "order = pre0 @ item # post0" by (meson split_list)
  have a: "calls_for item (new_calls w w') = []"
    using no_foo_at[of client pre0 item post0 st w r st' w'] assms(2,4,5) dist o0
    by (simp add: calls_for_def)
  have b: "item \<notin> todo st' \<and>
           synchronize_item client item (fst (snd (synchronize client pre st w)))
                      (snd (snd (synchronize client pre st w)))
                    = (Next, (fst (snd (synchronize client pre st w)))
                               \<lparr>todo := todo (fst (snd (synchronize client pre st w))) - {item}\<rparr>,
                       snd (snd (synchronize client pre st w)))"
    if o: "order = pre @ item # post" and reach: "fst (synchronize client pre st w) = Next" for pre post
  proof -
    obtain r0 s1 w1 where p: "synchronize client pre st w = (r0, s1, w1)" by (metis prod_cases3)
    have "foos s1 item = None" using frame_of_pass[OF p] assms(4) by simp
    then have "synchronize_item client item s1 w1 = (Next, s1\<lparr>todo := todo s1 - {item}\<rparr>, w1)"
      by (rule synchronize_item_no_foo)
    moreover have "item \<notin> todo st'"
      using no_foo_at[of client pre item post st w r st' w'] assms(2,4,5) dist o reach by simp
    ultimately show ?thesis using p by simp
  qed
  from a b show ?thesis by blast
qed



text \<open>
  Claim C6. After a pass that returned nil, a second pass over the \<open>todo\<close> it left, with
  \<open>foos\<close> and \<open>deployments\<close> as they were, makes no call at all, whatever the client
  would answer and in whatever order it visits the names; it returns nil and leaves the
  state as it is.
\<close>

theorem synchronize_idempotent:
  assumes "range_order order st" and "synchronize client order st w = (Next, st1, w1)"
    and "range_order order2 st1"
  shows "fst (synchronize client2 order2 st1 w2) = Next
       \<and> fst (snd (synchronize client2 order2 st1 w2)) = st1
       \<and> calls (snd (snd (synchronize client2 order2 st1 w2))) = calls w2
       \<and> new_calls w2 (snd (snd (synchronize client2 order2 st1 w2))) = []"
proof -
  note fr = frame_of_pass[OF assms(2)]
  have "\<forall>item\<in>set order2. not_owned st1 item"
  proof
    fix item assume "item \<in> set order2"
    with assms(3) have in1: "item \<in> todo st1" by (simp add: range_order_def)
    with fr have "item \<in> todo st" by auto
    with assms(1) have "item \<in> set order" by (simp add: range_order_def)
    from synchronize_kept[OF assms(2) this in1] have "not_owned st item" .
    with fr not_owned_cong[of st1 st item] show "not_owned st1 item" by simp
  qed
  from synchronize_all_not_owned[OF this, of client2 w2] show ?thesis
    by (auto simp: new_calls_def)
qed

section \<open>Errors and termination of the loop\<close>

lemma processResources_running_live:
  "phase (processResources client w sels) = Running \<Longrightarrow>
   Errors (processResources client w sels) = [] \<and>
   (deploymentsCh (processResources client w sels) \<or> foosCh (processResources client w sels))"
  using loop_inv_processResources[of sels client w] by (simp add: loop_inv_def)

lemma step_ratelimiter_failed:
  assumes "phase s = Running" and "deploymentsCh s \<or> foosCh s"
    and "range_order order (status s)"
    and "synchronize client order (status s) (outside s) = (Return e, st', w')"
  shows "processResources_step client s (FromRateLimiter order) =
           s\<lparr>status := st',
             outside := w'\<lparr>logs := logs w' @ [SynchronizeFailed e], ticks := Suc (ticks w')\<rparr>\<rparr>"
  using assms
  by (auto simp: processResources_step_def case_ratelimiter_eq[OF assms(4)] end_of_iteration_def)

text \<open>
  Claim C8. If a call of a pass is answered with an error \<open>e\<close>, the pass returns \<open>e\<close> and
  that call is the last thing it did; the name being visited and all names after it in the
  order are still in \<open>todo\<close>. When the loop of \<open>processResources\<close>, in any state in which
  it runs and holds one channel at least, takes the rate limiter's case and runs this pass,
  it appends the line that synchronize failed to the log, asks for one more tick, stays in
  its loop and puts nothing on \<open>c.Errors\<close>; the state changes in nothing else. Every
  state that the loop reaches and in which it runs is such a state.
\<close>

theorem synchronize_error_aborts:
  assumes "range_order order st" and "synchronize client order st w = (r, st', w')"
    and "(c, Some e) \<in> set (new_calls w w')"
  shows "r = Return e \<and> last (calls w') = (c, Some e)
       \<and> (\<exists>pre item post s1 w1. order = pre @ item # post
             \<and> synchronize client pre st w = (Next, s1, w1)
             \<and> synchronize_item client item s1 w1 = (Return e, st', w')
             \<and> calls w' = calls w1 @ [(c, Some e)]
             \<and> set (item # post) \<subseteq> todo st')
       \<and> (\<forall>s. phase s = Running \<and> (deploymentsCh s \<or> foosCh s) \<and> status s = st \<and> outside s = w
             \<longrightarrow> processResources_step client s (FromRateLimiter order)
                   = s\<lparr>status := st',
                      outside := w'\<lparr>logs := logs w' @ [SynchronizeFailed e], ticks := Suc (ticks w')\<rparr>\<rparr>
                 \<and> logs (outside (processResources_step client s (FromRateLimiter order)))
                     = logs w' @ [SynchronizeFailed e]
                 \<and> ticks (outside (processResources_step client s (FromRateLimiter order))) = Suc (ticks w)
                 \<and> phase (processResources_step client s (FromRateLimiter order)) = Running
                 \<and> Errors (processResources_step client s (FromRateLimiter order)) = Errors s)
       \<and> (\<forall>w0 sels. phase (processResources client w0 sels) = Running
             \<and> status (processResources client w0 sels) = st
             \<and> outside (processResources client w0 sels) = w
             \<longrightarrow> processResources_step client (processResources client w0 sels) (FromRateLimiter order)
                   = (processResources client w0 sels)
                       \<lparr>status := st',
                        outside := w'\<lparr>logs := logs w' @ [SynchronizeFailed e], ticks := Suc (ticks w')\<rparr>\<rparr>
                 \<and> phase (processResources_step client (processResources client w0 sels) (FromRateLimiter order)) = Running
                 \<and> Errors (processResources_step client (processResources client w0 sels) (FromRateLimiter order)) = [])"
proof -
  from synchronize_answers[OF assms(2)] obtain cs where cs: "calls w' = calls w @ cs"
    and an: "(case r of
                Return e \<Rightarrow> cs \<noteq> [] \<and> snd (last cs) = Some e \<and> (\<forall>x\<in>set (butlast cs). snd x = None)
              | _ \<Rightarrow> \<forall>x\<in>set cs. snd x = None)" by blast
  from cs have nc: "new_calls w w' = cs" by (rule new_calls_append)
  with assms(3) have mem: "(c, Some e) \<in> set cs" by simp
  then obtain e' where r: "r = Return e'" using an by (cases r) auto
  with an have ne: "cs \<noteq> []" and la: "snd (last cs) = Some e'"
    and bl: "\<forall>x\<in>set (butlast cs). snd x = None" by simp_all
  have "set (butlast cs @ [last cs]) = set (butlast cs) \<union> {last cs}" by simp
  moreover from ne have "butlast cs @ [last cs] = cs" by simp
  ultimately have "set cs = set (butlast cs) \<union> {last cs}" by metis
  with mem bl have lc: "last cs = (c, Some e)" by auto
  with la have ee: "e' = e" by simp
  have last: "last (calls w') = (c, Some e)" using cs ne lc by simp
  from assms(2) r ee have run: "synchronize client order st w = (Return e, st', w')" by simp
  from synchronize_Return[OF run] obtain pre item post s1 w1 where
    o: "order = pre @ item # post" and p: "synchronize client pre st w = (Next, s1, w1)"
    and it: "synchronize_item client item s1 w1 = (Return e, st', w')" by blast
  from synchronize_item_Return[OF it] obtain c' where s1: "st' = s1"
    and c': "calls w' = calls w1 @ [(c', Some e)]" by blast
  from c' last have cw: "calls w' = calls w1 @ [(c, Some e)]" by simp
  from assms(1) o have "set (item # post) \<subseteq> todo st - set pre"
    by (auto simp: range_order_def)
  with frame_of_pass[OF p] s1 have keep: "set (item # post) \<subseteq> todo st'" by blast
  have loop: "processResources_step client (processResources client w0 sels) (FromRateLimiter order)
                   = (processResources client w0 sels)
                       \<lparr>status := st',
                        outside := w'\<lparr>logs := logs w' @ [SynchronizeFailed e], ticks := Suc (ticks w')\<rparr>\<rparr>
                 \<and> phase (processResources_step client (processResources client w0 sels) (FromRateLimiter order)) = Running
                 \<and> Errors (processResources_step client (processResources client w0 sels) (FromRateLimiter order)) = []"
    if run': "phase (processResources client w0 sels) = Running"
      "status (processResources client w0 sels) = st" "outside (processResources client w0 sels) = w"
    for w0 sels
  proof -
    from processResources_running_live[OF run'(1)]
    have e0: "Errors (processResources client w0 sels) = []"
      and live: "deploymentsCh (processResources client w0 sels) \<or> foosCh (processResources client w0 sels)"
      by simp_all
    have "processResources_step client (processResources client w0 sels) (FromRateLimiter order)
            = (processResources client w0 sels)
                \<lparr>status := st',
                 outside := w'\<lparr>logs := logs w' @ [SynchronizeFailed e], ticks := Suc (ticks w')\<rparr>\<rparr>"
      using run' assms(1) run live by (intro step_ratelimiter_failed) simp_all
    with run'(1) e0 show ?thesis by simp
  qed
  from synchronize_world_grows[OF run] have tk: "ticks w' = ticks w" by blast
  have any: "processResources_step client s (FromRateLimiter order)
                   = s\<lparr>status := st',
                      outside := w'\<lparr>logs := logs w' @ [SynchronizeFailed e], ticks := Suc (ticks w')\<rparr>\<rparr>
                 \<and> logs (outside (processResources_step client s (FromRateLimiter order)))
                     = logs w' @ [SynchronizeFailed e]
                 \<and> ticks (outside (processResources_step client s (FromRateLimiter order))) = Suc (ticks w)
                 \<and> phase (processResources_step client s (FromRateLimiter order)) = Running
                 \<and> Errors (processResources_step client s (FromRateLimiter order)) = Errors s"
    if at: "phase s = Running" "deploymentsCh s \<or> foosCh s" "status s = st" "outside s = w" for s
  proof -
    have "processResources_step client s (FromRateLimiter order)
            = s\<lparr>status := st',
                 outside := w'\<lparr>logs := logs w' @ [SynchronizeFailed e], ticks := Suc (ticks w')\<rparr>\<rparr>"
      using at assms(1) run by (intro step_ratelimiter_failed) simp_all
    with at(1) tk show ?thesis by simp
  qed
  have ex: "\<exists>pre item post s1 w1. order = pre @ item # post
             \<and> synchronize client pre st w = (Next, s1, w1)
             \<and> synchronize_item client item s1 w1 = (Return e, st', w')
             \<and> calls w' = calls w1 @ [(c, Some e)]
             \<and> set (item # post) \<subseteq> todo st'"
    using o p it cw keep by blast
  from r ee have "r = Return e" by simp
  with last ex any loop show ?thesis by (intro conjI allI impI) blast+
qed

lemma step_stopped: "phase s \<noteq> Running \<Longrightarrow> processResources_step client s sel = s"
  by (simp add: processResources_step_def)

lemma step_deployments_error:
  "phase s = Running \<Longrightarrow> deploymentsCh s \<Longrightarrow> Err ev = Some e \<Longrightarrow>
   processResources_step client s (FromDeployments (Some ev)) =
     s\<lparr>Errors := Errors s @ [Send (Errorf ''Reading deployments'' e), Close], phase := Failed\<rparr>"
  by (simp add: processResources_step_def case_deployments_def fail_with_def)

lemma step_foos_error:
  "phase s = Running \<Longrightarrow> foosCh s \<Longrightarrow> Err ev = Some e \<Longrightarrow>
   processResources_step client s (FromFoos (Some ev)) =
     s\<lparr>Errors := Errors s @ [Send (Errorf ''Reading Foos'' e), Close], phase := Failed\<rparr>"
  by (simp add: processResources_step_def case_foos_def fail_with_def)

text \<open>
  Claim C9. The loop returns after both channels were closed only if both close
  notifications were received, and then \<open>c.Errors\<close> holds the one \<open>Close\<close> and no error;
  once both were received the loop is no longer running. While the loop runs, nothing has
  been put on \<open>c.Errors\<close>. A delivery error on either channel, whatever the state of the
  other, puts one wrapped error and then the \<open>Close\<close> on \<open>c.Errors\<close> and ends the loop,
  and after the loop has ended nothing more happens.
\<close>

theorem processResources_termination:
  "(phase (processResources client w sels) = Done \<longrightarrow>
      FromDeployments None \<in> set sels \<and> FromFoos None \<in> set sels
      \<and> Errors (processResources client w sels) = [Close])
   \<and> (FromDeployments None \<in> set sels \<and> FromFoos None \<in> set sels \<longrightarrow>
        phase (processResources client w sels) \<noteq> Running)
   \<and> (phase (processResources client w sels) = Running \<longrightarrow> Errors (processResources client w sels) = [])
   \<and> (phase (processResources client w sels) = Running \<and> deploymentsCh (processResources client w sels)
        \<and> Err ev = Some e \<longrightarrow>
        phase (processResources client w (sels @ [FromDeployments (Some ev)])) = Failed
        \<and> Errors (processResources client w (sels @ [FromDeployments (Some ev)]))
            = [Send (Errorf ''Reading deployments'' e), Close])
   \<and> (phase (processResources client w sels) = Running \<and> foosCh (processResources client w sels)
        \<and> Err ev' = Some e' \<longrightarrow>
        phase (processResources client w (sels @ [FromFoos (Some ev')])) = Failed
        \<and> Errors (processResources client w (sels @ [FromFoos (Some ev')]))
            = [Send (Errorf ''Reading Foos'' e'), Close])
   \<and> (phase (processResources client w sels) \<noteq> Running \<longrightarrow>
        processResources client w (sels @ rest) = processResources client w sels)"
proof -
  let ?s = "processResources client w sels"
  have inv: "loop_inv sels ?s" by (rule loop_inv_processResources)
  have a: "phase ?s = Done \<longrightarrow> FromDeployments None \<in> set sels \<and> FromFoos None \<in> set sels \<and> Errors ?s = [Close]"
    using inv by (auto simp: loop_inv_def)
  have b: "FromDeployments None \<in> set sels \<and> FromFoos None \<in> set sels \<longrightarrow> phase ?s \<noteq> Running"
    using inv by (auto simp: loop_inv_def)
  have c: "phase ?s = Running \<longrightarrow> Errors ?s = []"
    using inv by (auto simp: loop_inv_def)
  have d: "phase ?s = Running \<and> deploymentsCh ?s \<and> Err ev = Some e \<longrightarrow>
        phase (processResources client w (sels @ [FromDeployments (Some ev)])) = Failed
        \<and> Errors (processResources client w (sels @ [FromDeployments (Some ev)]))
            = [Send (Errorf ''Reading deployments'' e), Close]"
    using c by (auto simp: processResources_snoc step_deployments_error)
  have f: "phase ?s = Running \<and> foosCh ?s \<and> Err ev' = Some e' \<longrightarrow>
        phase (processResources client w (sels @ [FromFoos (Some ev')])) = Failed
        \<and> Errors (processResources client w (sels @ [FromFoos (Some ev')]))
            = [Send (Errorf ''Reading Foos'' e'), Close]"
    using c by (auto simp: processResources_snoc step_foos_error)
  have g: "phase ?s \<noteq> Running \<longrightarrow> processResources client w (sels @ rest) = ?s"
  proof
    assume st: "phase ?s \<noteq> Running"
    have "foldl (processResources_step client) s rest = s" if "phase s \<noteq> Running" for s
      using that by (induction rest) (simp_all add: step_stopped)
    from this[OF st] show "processResources client w (sels @ rest) = ?s"
      by (simp add: processResources_def)
  qed
  from a b c d f g show ?thesis by (intro conjI)
qed

lemma step_deployments_item:
  "phase s = Running \<Longrightarrow> deploymentsCh s \<Longrightarrow> Err ev = None \<Longrightarrow> Item ev = Some item \<Longrightarrow>
   processResources_step client s (FromDeployments (Some ev)) =
     end_of_iteration (mark_owner item
       (s\<lparr>status := (status s)\<lparr>deployments :=
             (if IsDelete ev
              then (deployments (status s))(ObjectMeta.Name item := None)
              else (deployments (status s))(ObjectMeta.Name item \<mapsto> item))\<rparr>\<rparr>))"
  by (simp add: processResources_step_def case_deployments_def)

text \<open>
  Claim C3, amended. A Deployment event with an item is applied to \<open>deployments\<close> (stored,
  or removed on a delete). A name is put into \<open>todo\<close> and a tick is asked for exactly when
  the item has an owner reference of kind \<open>Foo\<close>, whatever its controller flag; the name
  is that of the first such reference. An item none of whose owner references is of kind
  \<open>Foo\<close> changes neither \<open>todo\<close> nor the tick count.
\<close>

theorem deployment_event_marks_owner:
  assumes "phase s = Running" and "deploymentsCh s" and "Err ev = None" and "Item ev = Some item"
  shows "deployments (status (processResources_step client s (FromDeployments (Some ev))))
           = (if IsDelete ev
              then (deployments (status s))(ObjectMeta.Name item := None)
              else (deployments (status s))(ObjectMeta.Name item \<mapsto> item))
       \<and> todo (status (processResources_step client s (FromDeployments (Some ev))))
           = (case find (\<lambda>ref. OwnerReference.Kind ref = Kind) (OwnerReferences item) of
                None \<Rightarrow> todo (status s)
              | Some ref \<Rightarrow> insert (OwnerReference.Name ref) (todo (status s)))
       \<and> ticks (outside (processResources_step client s (FromDeployments (Some ev))))
           = (case find (\<lambda>ref. OwnerReference.Kind ref = Kind) (OwnerReferences item) of
                None \<Rightarrow> ticks (outside s)
              | Some ref \<Rightarrow> Suc (ticks (outside s)))
       \<and> (find (\<lambda>ref. OwnerReference.Kind ref = Kind) (OwnerReferences item) = None
            \<longleftrightarrow> (\<forall>ref\<in>set (OwnerReferences item). OwnerReference.Kind ref \<noteq> Kind))"
proof -
  let ?s' = "processResources_step client s (FromDeployments (Some ev))"
  let ?owner = "find (\<lambda>ref. OwnerReference.Kind ref = Kind) (OwnerReferences item)"
  note eq = step_deployments_item[OF assms, of client]
  have a: "deployments (status ?s') = (if IsDelete ev
              then (deployments (status s))(ObjectMeta.Name item := None)
              else (deployments (status s))(ObjectMeta.Name item \<mapsto> item))"
    by (simp add: eq end_of_iteration_simps mark_owner_simps)
  have b: "todo (status ?s') = (case ?owner of None \<Rightarrow> todo (status s)
              | Some ref \<Rightarrow> insert (OwnerReference.Name ref) (todo (status s)))"
    by (cases ?owner) (simp_all add: eq end_of_iteration_simps mark_owner_def)
  have c: "ticks (outside ?s') = (case ?owner of None \<Rightarrow> ticks (outside s)
              | Some ref \<Rightarrow> Suc (ticks (outside s)))"
    by (cases ?owner) (simp_all add: eq end_of_iteration_simps mark_owner_def)
  have d: "?owner = None \<longleftrightarrow> (\<forall>ref\<in>set (OwnerReferences item). OwnerReference.Kind ref \<noteq> Kind)"
    by (auto simp: find_None_iff)
  from a b c d show ?thesis by (intro conjI)
qed

section \<open>The statements on the demo cluster\<close>

lemma IsControlledBy_newDeployment:
  "IsControlledBy ((newDeployment f)\<lparr>ResourceVersion := v\<rparr>) foo \<longleftrightarrow> ObjectMeta.UID f = ObjectMeta.UID foo"
  by (simp add: IsControlledBy_def GetControllerOfNoCopy_def newDeployment_def NewControllerRef_def Let_def)

lemma demo_foo_simps:
  "ObjectMeta.Name (demo_foo name target n) = name"
  "ObjectMeta.UID (demo_foo name target n) = ''uid-'' @ name"
  "DeploymentName (Foo.Spec (demo_foo name target n)) = target"
  "FooSpec.Replicas (Foo.Spec (demo_foo name target n)) = n"
  by (simp_all add: demo_foo_def)

lemma demo_status_simps:
  "foos demo_status ''a'' = Some (demo_foo ''a'' ''da'' 3)"
  "foos demo_status ''b'' = None"
  "foos demo_status ''c'' = Some (demo_foo ''c'' ''dc'' 5)"
  "foos demo_status ''d'' = Some (demo_foo ''d'' ''dd'' 2)"
  "foos demo_status ''e'' = Some (demo_foo ''e'' ''de'' 1)"
  "deployments demo_status ''da'' = None"
  "deployments demo_status ''de'' = None"
  "deployments demo_status ''dc''
     = Some ((newDeployment (demo_foo ''c'' ''dc'' 7))\<lparr>ResourceVersion := ''41''\<rparr>)"
  "deployments demo_status ''dd''
     = Some ((newDeployment (demo_foo ''other'' ''dd'' 2))\<lparr>ResourceVersion := ''17''\<rparr>)"
  "todo demo_status = {''a'', ''b'', ''c'', ''d'', ''e''}"
  by (simp_all add: demo_status_def)

lemma demo_status_keyed: "foos_keyed (demo_status\<lparr>todo := T\<rparr>)"
  by (auto simp: foos_keyed_def demo_status_def demo_foo_def split: if_splits)

lemma demo_status_todo: "demo_status\<lparr>todo := {''a'', ''b'', ''c'', ''d'', ''e''}\<rparr> = demo_status"
  by (simp add: demo_status_def)


lemma run_gone:
  "synchronize accepts [''b''] (demo_status\<lparr>todo := {''b''}\<rparr>) quiet_world =
     (Next, demo_status\<lparr>todo := {}\<rparr>, quiet_world)"
  by (simp add: synchronize_item_def demo_status_simps)


lemma run_conflict:
  "synchronize client [''d''] (demo_status\<lparr>todo := {''d''}\<rparr>) w =
     (Next, demo_status\<lparr>todo := {''d''}\<rparr>,
      w\<lparr>logs := logs w @ [NotOwnedByUs ''default'' ''dd'']\<rparr>)"
  by (simp add: synchronize_item_def demo_status_simps demo_foo_simps
      IsControlledBy_newDeployment newDeployment_fields)
     (simp add: newDeployment_def demo_foo_def Let_def)

lemma run_rejected:
  "synchronize rejects (''a'' # rest) (demo_status\<lparr>todo := T\<rparr>) quiet_world =
     (Return (RequestError 500), demo_status\<lparr>todo := T\<rparr>,
      quiet_world\<lparr>calls := [(AddDeployment (newDeployment (demo_foo ''a'' ''da'' 3)), Some (RequestError 500))]\<rparr>)"
  by (simp add: synchronize_item_def demo_status_simps demo_foo_simps apply_newDeployment_def
      rejects_def quiet_world_def Let_def)


lemma demo_order: "range_order [''a'', ''e'', ''b'', ''c'', ''d''] demo_status"
  by (auto simp: range_order_def demo_status_simps)

lemma run_aborted:
  "synchronize rejects [''a'', ''e'', ''b'', ''c'', ''d''] demo_status quiet_world =
     (Return (RequestError 500), demo_status,
      quiet_world\<lparr>calls := [(AddDeployment (newDeployment (demo_foo ''a'' ''da'' 3)), Some (RequestError 500))]\<rparr>)"
  using run_rejected[of "[''e'', ''b'', ''c'', ''d'']" "{''a'', ''b'', ''c'', ''d'', ''e''}"]
  by (simp add: demo_status_todo)


text \<open>
  Claim C4 as stated fails for the same reason: \<open>b\<close> has no Foo, and the pass that the
  rejected call for \<open>a\<close> ends leaves \<open>b\<close> in \<open>todo\<close>.
\<close>

theorem deleted_foo_in_aborted_pass_counterexample:
  "range_order [''a'', ''e'', ''b'', ''c'', ''d''] demo_status
   \<and> ''b'' \<in> todo demo_status
   \<and> foos demo_status ''b'' = None
   \<and> ''b'' \<in> todo (fst (snd (synchronize rejects [''a'', ''e'', ''b'', ''c'', ''d''] demo_status quiet_world)))"
  unfolding run_aborted
  by (simp add: demo_order demo_status_simps)






lemma step_plainly_owned:
  "processResources_step client (processResources_init quiet_world)
     (FromDeployments (Some (demo_event plainly_owned)))
   = (processResources_init quiet_world)
       \<lparr>status := \<lparr>foos = Map.empty, deployments = [''da'' \<mapsto> plainly_owned], todo = {''a''}\<rparr>,
        outside := quiet_world\<lparr>ticks := 1\<rparr>\<rparr>"
  by (simp add: processResources_step_def processResources_init_def case_deployments_def demo_event_def
      end_of_iteration_def mark_owner_def plainly_owned_def newDeployment_fields NewControllerRef_def
      demo_foo_simps Kind_def quiet_world_def)

text \<open>
  Claim C3 as stated fails: the only owner reference of this Deployment is of kind
  \<open>Foo\<close> and is not a controller reference, and the event marks \<open>a\<close> and asks for a tick.
\<close>

theorem plain_owner_is_marked_counterexample:
  "\<not> names_kind_as_controller Kind plainly_owned
   \<and> todo (status (processResources_step accepts (processResources_init quiet_world)
        (FromDeployments (Some (demo_event plainly_owned))))) = {''a''}
   \<and> ticks (outside (processResources_step accepts (processResources_init quiet_world)
        (FromDeployments (Some (demo_event plainly_owned))))) = 1
   \<and> ticks (outside (processResources_init quiet_world)) = 0"
  unfolding step_plainly_owned
  by (simp add: names_kind_as_controller_def plainly_owned_def NewControllerRef_def
      processResources_init_def quiet_world_def)


theorem synchronize_drops_deleted_foo_witness:
  "calls_for ''b'' (new_calls quiet_world
       (snd (snd (synchronize accepts [''b''] (demo_status\<lparr>todo := {''b''}\<rparr>) quiet_world)))) = []
   \<and> ''b'' \<notin> todo (fst (snd (synchronize accepts [''b''] (demo_status\<lparr>todo := {''b''}\<rparr>) quiet_world)))"
proof -
  let ?st = "demo_status\<lparr>todo := {''b''}\<rparr>"
  have h1: "range_order [''b''] ?st" by (simp add: range_order_def)
  have h2: "foos_keyed ?st" by (rule demo_status_keyed)
  have h3: "''b'' \<in> todo ?st" by simp
  have h4: "foos ?st ''b'' = None" by (simp add: demo_status_simps)
  have run: "synchronize accepts [''b''] ?st quiet_world = (Next, demo_status\<lparr>todo := {}\<rparr>, quiet_world)"
    by (rule run_gone)
  have reach: "[''b''] = [] @ ''b'' # [] \<and> fst (synchronize accepts [] ?st quiet_world) = Next" by simp
  from synchronize_drops_deleted_foo[OF h1 h2 h3 h4 run] reach
  have "calls_for ''b'' (new_calls quiet_world quiet_world) = [] \<and> ''b'' \<notin> todo (demo_status\<lparr>todo := {}\<rparr>)"
    by blast
  then show ?thesis unfolding run fst_conv snd_conv by simp
qed



lemma run_create_conflict:
  "synchronize accepts [''a'', ''d''] (demo_status\<lparr>todo := {''a'', ''d''}\<rparr>) quiet_world =
     (Next, demo_status\<lparr>todo := {''d''}\<rparr>,
      quiet_world\<lparr>calls := [(AddDeployment (newDeployment (demo_foo ''a'' ''da'' 3)), None)],
                   logs := [NotOwnedByUs ''default'' ''dd'']\<rparr>)"
proof -
  have a: "synchronize_item accepts ''a'' (demo_status\<lparr>todo := {''a'', ''d''}\<rparr>) quiet_world =
     (Next, demo_status\<lparr>todo := {''d''}\<rparr>,
      quiet_world\<lparr>calls := [(AddDeployment (newDeployment (demo_foo ''a'' ''da'' 3)), None)]\<rparr>)"
    by (simp add: synchronize_item_def demo_status_simps demo_foo_simps apply_newDeployment_def
      accepts_def quiet_world_def Let_def)
  have b: "synchronize accepts [''d''] (demo_status\<lparr>todo := {''d''}\<rparr>)
             (quiet_world\<lparr>calls := [(AddDeployment (newDeployment (demo_foo ''a'' ''da'' 3)), None)]\<rparr>)
           = (Next, demo_status\<lparr>todo := {''d''}\<rparr>,
              quiet_world\<lparr>calls := [(AddDeployment (newDeployment (demo_foo ''a'' ''da'' 3)), None)],
                   logs := [NotOwnedByUs ''default'' ''dd'']\<rparr>)"
    unfolding run_conflict by (simp add: quiet_world_def)
  have "synchronize accepts [''a'', ''d''] (demo_status\<lparr>todo := {''a'', ''d''}\<rparr>) quiet_world
          = synchronize accepts [''d''] (demo_status\<lparr>todo := {''d''}\<rparr>)
             (quiet_world\<lparr>calls := [(AddDeployment (newDeployment (demo_foo ''a'' ''da'' 3)), None)]\<rparr>)"
    by (simp only: synchronize.simps(2)[of accepts "''a''"] a prod.case flow.case)
  with b show ?thesis by simp
qed

theorem synchronize_idempotent_witness:
  "fst (synchronize accepts [''a'', ''d''] (demo_status\<lparr>todo := {''a'', ''d''}\<rparr>) quiet_world) = Next
   \<and> fst (synchronize rejects [''d'']
        (fst (snd (synchronize accepts [''a'', ''d''] (demo_status\<lparr>todo := {''a'', ''d''}\<rparr>) quiet_world)))
        (snd (snd (synchronize accepts [''a'', ''d''] (demo_status\<lparr>todo := {''a'', ''d''}\<rparr>) quiet_world)))) = Next
   \<and> new_calls (snd (snd (synchronize accepts [''a'', ''d''] (demo_status\<lparr>todo := {''a'', ''d''}\<rparr>) quiet_world)))
        (snd (snd (synchronize rejects [''d'']
          (fst (snd (synchronize accepts [''a'', ''d''] (demo_status\<lparr>todo := {''a'', ''d''}\<rparr>) quiet_world)))
          (snd (snd (synchronize accepts [''a'', ''d''] (demo_status\<lparr>todo := {''a'', ''d''}\<rparr>) quiet_world)))))) = []"
proof -
  let ?st = "demo_status\<lparr>todo := {''a'', ''d''}\<rparr>"
  let ?st1 = "demo_status\<lparr>todo := {''d''}\<rparr>"
  let ?w1 = "quiet_world\<lparr>calls := [(AddDeployment (newDeployment (demo_foo ''a'' ''da'' 3)), None)],
                   logs := [NotOwnedByUs ''default'' ''dd'']\<rparr>"
  have h1: "range_order [''a'', ''d''] ?st" by (auto simp: range_order_def)
  have run: "synchronize accepts [''a'', ''d''] ?st quiet_world = (Next, ?st1, ?w1)"
    by (rule run_create_conflict)
  have h3: "range_order [''d''] ?st1" by (simp add: range_order_def)
  from synchronize_idempotent[OF h1 run h3, of rejects ?w1]
  show ?thesis unfolding run fst_conv snd_conv by simp
qed

lemma run_announced:
  "processResources client quiet_world [FromFoos (Some (demo_event (demo_foo ''a'' ''da'' 3)))]
     = (processResources_init quiet_world)\<lparr>status := announced, outside := quiet_world\<lparr>ticks := 1\<rparr>\<rparr>"
  by (simp add: processResources_def processResources_step_def processResources_init_def case_foos_def
      demo_event_def end_of_iteration_def demo_foo_simps announced_def quiet_world_def)

lemma run_announced_rejected:
  "synchronize rejects [''a''] announced (quiet_world\<lparr>ticks := 1\<rparr>) =
     (Return (RequestError 500), announced,
      quiet_world\<lparr>ticks := 1,
        calls := [(AddDeployment (newDeployment (demo_foo ''a'' ''da'' 3)), Some (RequestError 500))]\<rparr>)"
  by (simp add: synchronize_item_def announced_def demo_foo_simps apply_newDeployment_def
      rejects_def quiet_world_def Let_def)

theorem synchronize_error_aborts_witness:
  "fst (synchronize rejects [''a''] announced (quiet_world\<lparr>ticks := 1\<rparr>)) = Return (RequestError 500)
   \<and> ''a'' \<in> todo (fst (snd (synchronize rejects [''a''] announced (quiet_world\<lparr>ticks := 1\<rparr>))))
   \<and> logs (outside (processResources rejects quiet_world
        [FromFoos (Some (demo_event (demo_foo ''a'' ''da'' 3))), FromRateLimiter [''a'']]))
       = [SynchronizeFailed (RequestError 500)]
   \<and> ticks (outside (processResources rejects quiet_world
        [FromFoos (Some (demo_event (demo_foo ''a'' ''da'' 3))), FromRateLimiter [''a'']])) = 2
   \<and> ticks (outside (processResources rejects quiet_world
        [FromFoos (Some (demo_event (demo_foo ''a'' ''da'' 3)))])) = 1
   \<and> phase (processResources rejects quiet_world
        [FromFoos (Some (demo_event (demo_foo ''a'' ''da'' 3))), FromRateLimiter [''a'']]) = Running
   \<and> Errors (processResources rejects quiet_world
        [FromFoos (Some (demo_event (demo_foo ''a'' ''da'' 3))), FromRateLimiter [''a'']]) = []"
proof -
  let ?w = "quiet_world\<lparr>ticks := 1\<rparr>"
  let ?c = "AddDeployment (newDeployment (demo_foo ''a'' ''da'' 3))"
  let ?w' = "quiet_world\<lparr>ticks := 1, calls := [(?c, Some (RequestError 500))]\<rparr>"
  let ?sels = "[FromFoos (Some (demo_event (demo_foo ''a'' ''da'' 3)))]"
  let ?s = "processResources rejects quiet_world ?sels"
  have h1: "range_order [''a''] announced" by (simp add: range_order_def announced_def)
  have run: "synchronize rejects [''a''] announced ?w = (Return (RequestError 500), announced, ?w')"
    by (rule run_announced_rejected)
  have h3: "(?c, Some (RequestError 500)) \<in> set (new_calls ?w ?w')"
    by (simp add: new_calls_def quiet_world_def)
  have at: "phase ?s = Running \<and> (deploymentsCh ?s \<or> foosCh ?s) \<and> status ?s = announced \<and> outside ?s = ?w"
    unfolding run_announced by (simp add: processResources_init_def)
  have e0: "Errors ?s = []" "ticks (outside ?s) = 1"
    unfolding run_announced by (simp_all add: processResources_init_def)
  have lg: "logs ?w' = []" "ticks ?w = 1" by (simp_all add: quiet_world_def)
  have dirty: "''a'' \<in> todo announced" by (simp add: announced_def)
  have snoc: "processResources rejects quiet_world
                [FromFoos (Some (demo_event (demo_foo ''a'' ''da'' 3))), FromRateLimiter [''a'']]
              = processResources_step rejects ?s (FromRateLimiter [''a''])"
    using processResources_snoc[of rejects quiet_world ?sels "FromRateLimiter [''a'']"] by simp
  from synchronize_error_aborts[OF h1 run h3] at
  have "logs (outside (processResources_step rejects ?s (FromRateLimiter [''a''])))
          = logs ?w' @ [SynchronizeFailed (RequestError 500)]
        \<and> ticks (outside (processResources_step rejects ?s (FromRateLimiter [''a'']))) = Suc (ticks ?w)
        \<and> phase (processResources_step rejects ?s (FromRateLimiter [''a''])) = Running
        \<and> Errors (processResources_step rejects ?s (FromRateLimiter [''a''])) = Errors ?s"
    by blast
  with dirty e0 lg show ?thesis unfolding run snoc fst_conv snd_conv by simp
qed

lemma run_closed_both:
  "processResources client w [FromDeployments None, FromFoos None]
     = (processResources_init w)\<lparr>deploymentsCh := False, foosCh := False, Errors := [Close], phase := Done\<rparr>"
  by (simp add: processResources_def processResources_step_def processResources_init_def
      case_deployments_def case_foos_def end_of_iteration_def)

lemma run_closed_foos:
  "processResources client w [FromFoos None] = (processResources_init w)\<lparr>foosCh := False\<rparr>"
  by (simp add: processResources_def processResources_step_def processResources_init_def
      case_foos_def end_of_iteration_def)

theorem processResources_termination_witness:
  "phase (processResources accepts quiet_world [FromDeployments None, FromFoos None]) = Done
   \<and> Errors (processResources accepts quiet_world [FromDeployments None, FromFoos None]) = [Close]
   \<and> phase (processResources accepts quiet_world
        ([FromFoos None] @ [FromDeployments (Some (broken_event (OtherError ''unexpected EOF'')))])) = Failed
   \<and> Errors (processResources accepts quiet_world
        ([FromFoos None] @ [FromDeployments (Some (broken_event (OtherError ''unexpected EOF'')))]))
       = [Send (Errorf ''Reading deployments'' (OtherError ''unexpected EOF'')), Close]"
proof -
  have a: "phase (processResources accepts quiet_world [FromDeployments None, FromFoos None]) = Done"
    unfolding run_closed_both by simp
  have b: "phase (processResources accepts quiet_world [FromFoos None]) = Running
           \<and> deploymentsCh (processResources accepts quiet_world [FromFoos None])
           \<and> Err (broken_event (OtherError ''unexpected EOF'') :: Deployment WatchEvent)
               = Some (OtherError ''unexpected EOF'')"
    unfolding run_closed_foos by (simp add: processResources_init_def broken_event_def)
  from processResources_termination[of accepts quiet_world "[FromDeployments None, FromFoos None]"] a
  have c: "Errors (processResources accepts quiet_world [FromDeployments None, FromFoos None]) = [Close]"
    by blast
  from processResources_termination[of accepts quiet_world "[FromFoos None]"
        "broken_event (OtherError ''unexpected EOF'')" "OtherError ''unexpected EOF''"] b
  have d: "phase (processResources accepts quiet_world
        ([FromFoos None] @ [FromDeployments (Some (broken_event (OtherError ''unexpected EOF'')))])) = Failed
   \<and> Errors (processResources accepts quiet_world
        ([FromFoos None] @ [FromDeployments (Some (broken_event (OtherError ''unexpected EOF'')))]))
       = [Send (Errorf ''Reading deployments'' (OtherError ''unexpected EOF'')), Close]"
    by blast
  from a c d show ?thesis by (intro conjI) simp_all
qed

theorem deployment_event_marks_owner_witness:
  "todo (status (processResources_step accepts (processResources_init quiet_world)
      (FromDeployments (Some (demo_event (newDeployment (demo_foo ''c'' ''dc'' 7))))))) = {''c''}
   \<and> ticks (outside (processResources_step accepts (processResources_init quiet_world)
      (FromDeployments (Some (demo_event (newDeployment (demo_foo ''c'' ''dc'' 7))))))) = 1"
proof -
  let ?item = "newDeployment (demo_foo ''c'' ''dc'' 7)"
  let ?s = "processResources_init quiet_world"
  have h1: "phase ?s = Running" and h2: "deploymentsCh ?s"
    by (simp_all add: processResources_init_def)
  have h3: "Err (demo_event ?item) = None" and h4: "Item (demo_event ?item) = Some ?item"
    by (simp_all add: demo_event_def)
  have f: "find (\<lambda>ref. OwnerReference.Kind ref = Kind) (OwnerReferences ?item)
             = Some (NewControllerRef (demo_foo ''c'' ''dc'' 7) Group Version Kind)"
    by (simp add: newDeployment_fields)
  have e: "todo (status ?s) = {}" "ticks (outside ?s) = 0"
    by (simp_all add: processResources_init_def quiet_world_def)
  from deployment_event_marks_owner[OF h1 h2 h3 h4, of accepts]
  show ?thesis unfolding f e by (simp add: newDeployment_fields demo_foo_simps)
qed

section \<open>Installing the definition: which errors of the create call end the start\<close>

lemma addCRD_conflict_proceeds:
  assumes "\<forall>crd. create_answer client crd = Some (RequestError 409)"
  shows "addCRD client spec = addCRD (client\<lparr>create_answer := \<lambda>crd. None\<rparr>) spec"
  using assms by (simp add: addCRD_def Let_def)

lemma addCRD_request_error_returned:
  assumes "\<forall>crd. create_answer client crd = Some (RequestError code)" and "code \<noteq> 409"
  shows "fst (addCRD client spec) = Returns (Some (RequestError code))"
    and "length (snd (addCRD client spec)) = 1"
  using assms by (simp_all add: addCRD_def Let_def)

lemma startAux_request_error_aborts:
  assumes "\<forall>crd. create_answer crds crd = Some (RequestError code)" and "code \<noteq> 409"
  shows "startAux crds client namespace w sels =
           (snd (addFooCRD crds), [Send (Errorf ''Could not add CRD'' (RequestError code)), Close], None)"
    and "GetResources Group Version namespace ''foos'' \<notin> set (fst (startAux crds client namespace w sels))"
    and "GetDeployments namespace \<notin> set (fst (startAux crds client namespace w sels))"
  using assms by (simp_all add: startAux_def addFooCRD_def addCRD_def Let_def)

text \<open>
  Claim C2 on the code: the create call fails with an error that is not a
  \<open>*kubeapi.RequestError\<close>. The type assertion in \<open>addCRD\<close> then yields \<open>ok = false\<close>, the
  error is dropped, the wait for establishment runs and returns nil, and \<open>startAux\<close> goes
  on to open both watches; nothing is put on \<open>c.Errors\<close>.
\<close>

theorem addCRD_drops_other_errors:
  "create_answer unreachable_server established = Some (OtherError ''dial tcp: connection refused'')
   \<and> fst (addFooCRD unreachable_server) = Returns None
   \<and> tl (snd (addFooCRD unreachable_server))
       = [GetCustomResourceDefinitions ''foos.samplecontroller.example.com'', Stop]
   \<and> tl (fst (startAux unreachable_server accepts ''default'' quiet_world []))
       = [GetCustomResourceDefinitions ''foos.samplecontroller.example.com'', Stop,
          GetResources Group Version ''default'' ''foos'', GetDeployments ''default'']
   \<and> fst (snd (startAux unreachable_server accepts ''default'' quiet_world [])) = []"
  by (simp add: startAux_def addFooCRD_def addCRD_def unreachable_server_def demo_event_def
      established_def ConditionTrue_def Group_def Let_def processResources_def processResources_init_def)

end
